theory Spec2Isabelle
  imports Complex_Main "HOL-Library.Product_Lexorder" "HOL-Library.AList" "HOL-Library.Multiset"
begin

section \<open>Lab 4: top-p sampling generation and filling gaps with n-grams\<close>

text \<open>
  A shallow embedding of \<^verbatim>\<open>lab_4_fill_words_by_ngrams/main.py\<close>.

  Conventions of the embedding:
  \<^item> encoded tokens are Python ints (\<open>int\<close>), texts are \<open>string\<close>;
  \<^item> a Python float is the \<open>real\<close> number it denotes (infinities and NaN are left out);
    the running sum of \<^verbatim>\<open>TopPGenerator.run\<close>, whose comparison with the threshold decides
    what the loop does, is added as the machine adds it: the exact sum rounded to the
    nearest double, ties to even. The numeric formulas of the perplexity and of the
    accuracy (\<open>log\<close>, \<open>exp\<close>, the sum of logarithms, the quotients) are exact;
  \<^item> a dict is an association list in insertion order (its keys are distinct in every
    dict Python can build);
  \<^item> a raised exception is the \<open>Inl\<close> branch of a sum type;
  \<^item> \<open>random.choice\<close> reads a stream of draws \<open>nat \<Rightarrow> nat\<close>, passed and returned as state;
  \<^item> the collaborators of \<^verbatim>\<open>lab_3_generate_by_ngrams\<close> (the n-gram model, the encoder
    and decoder of the text processor, the greedy and beam search generators) are fields
    of records or parameters: their code is not part of this file's subject. The methods
    of \<^verbatim>\<open>WordProcessor\<close> work below \<^verbatim>\<open>encode\<close> and \<^verbatim>\<open>decode\<close> and are represented by these
    two fields.
\<close>

subsection \<open>Exceptions and Python sequence operations\<close>

datatype error = ValueError string | ZeroDivisionError | IndexError | StopIteration

text \<open>\<^verbatim>\<open>xs[i]\<close>: a negative index counts from the end, an index out of range raises.\<close>

definition py_index :: "'a list \<Rightarrow> int \<Rightarrow> error + 'a" where
  "py_index xs i =
     (let n = int (length xs) in
      if 0 \<le> i \<and> i < n then Inr (xs ! nat i)
      else if - n \<le> i \<and> i < 0 then Inr (xs ! nat (i + n))
      else Inl IndexError)"

text \<open>The position a slice bound denotes: negative bounds count from the end, and
  every bound is clipped to the sequence.\<close>

definition py_bound :: "'a list \<Rightarrow> int \<Rightarrow> nat" where
  "py_bound xs i =
     (let n = int (length xs) in
      if i < 0 then nat (max (i + n) 0) else nat (min i n))"

text \<open>\<^verbatim>\<open>xs[i:j]\<close>, \<^verbatim>\<open>xs[:j]\<close> and \<^verbatim>\<open>xs[i:]\<close>.\<close>

definition py_slice :: "'a list \<Rightarrow> int \<Rightarrow> int \<Rightarrow> 'a list" where
  "py_slice xs i j = take (py_bound xs j - py_bound xs i) (drop (py_bound xs i) xs)"

definition py_slice_to :: "'a list \<Rightarrow> int \<Rightarrow> 'a list" where
  "py_slice_to xs j = take (py_bound xs j) xs"

definition py_slice_from :: "'a list \<Rightarrow> int \<Rightarrow> 'a list" where
  "py_slice_from xs i = drop (py_bound xs i) xs"

text \<open>\<^verbatim>\<open>range(a, b)\<close>.\<close>

definition py_range :: "int \<Rightarrow> int \<Rightarrow> int list" where
  "py_range a b = [a..b - 1]"

text \<open>\<^verbatim>\<open>sorted(xs, key=key)\<close> is a stable sort; with \<^verbatim>\<open>reverse=True\<close> the order of the
  keys is reversed while elements of equal key keep their original order.\<close>

definition py_sorted :: "('a \<Rightarrow> 'k::linorder) \<Rightarrow> 'a list \<Rightarrow> 'a list" where
  "py_sorted key xs = sort_key key xs"

definition py_sorted_reverse :: "('a \<Rightarrow> 'k::linorder) \<Rightarrow> 'a list \<Rightarrow> 'a list" where
  "py_sorted_reverse key xs = rev (sort_key key (rev xs))"

text \<open>\<^verbatim>\<open>math.log\<close> raises \<^verbatim>\<open>ValueError\<close> outside its domain.\<close>

definition py_log :: "real \<Rightarrow> error + real" where
  "py_log x = (if 0 < x then Inr (ln x) else Inl (ValueError ''math domain error''))"

subsection \<open>Floating-point addition\<close>

text \<open>Rounding a real to the nearest integer, ties to the even one.\<close>

definition round_half_even :: "real \<Rightarrow> int" where
  "round_half_even q =
     (let f = \<lfloor>q\<rfloor> in
      if q - of_int f < 1 / 2 then f
      else if q - of_int f > 1 / 2 then f + 1
      else if even f then f else f + 1)"

text \<open>The exponent of the unit in the last place of the double nearest to \<open>x\<close>: 53
  significant bits, and no exponent below that of the subnormal numbers.\<close>

definition ulp_exponent :: "real \<Rightarrow> int" where
  "ulp_exponent x = max (\<lfloor>log 2 \<bar>x\<bar>\<rfloor> - 52) (- 1074)"

text \<open>The double nearest to a real, ties to the even significand: what a float literal
  denotes and what an arithmetic operation returns for its exact result. Results beyond
  the range of the doubles, where the machine has infinities, are not cut off.\<close>

definition round_double :: "real \<Rightarrow> real" where
  "round_double x =
     (if x = 0 then 0
      else of_int (round_half_even (x / 2 powr of_int (ulp_exponent x)))
             * 2 powr of_int (ulp_exponent x))"

text \<open>\<^verbatim>\<open>x + y\<close> on floats.\<close>

definition float_add :: "real \<Rightarrow> real \<Rightarrow> real" where
  "float_add x y = round_double (x + y)"

subsection \<open>Random choice\<close>

text \<open>\<^verbatim>\<open>random.choice(xs)\<close>: one draw of the stream selects a position of \<open>xs\<close>; the rest
  of the stream is the generator's next state. An empty sequence raises.\<close>

type_synonym rng = "nat \<Rightarrow> nat"

definition choice :: "'a list \<Rightarrow> rng \<Rightarrow> error + ('a \<times> rng)" where
  "choice xs rnd =
     (if xs = [] then Inl IndexError
      else Inr (xs ! (rnd 0 mod length xs), (\<lambda>k. rnd (Suc k))))"

subsection \<open>Collaborators\<close>

text \<open>A distribution is the dict \<^verbatim>\<open>{token: probability}\<close> the model returns;
  \<^verbatim>\<open>generate_next_token\<close> returns it or \<^verbatim>\<open>None\<close>.\<close>

type_synonym distribution = "(int \<times> real) list"

record NGramLanguageModel =
  generate_next_token :: "int list \<Rightarrow> distribution option"
  get_n_gram_size :: int

text \<open>\<^verbatim>\<open>encode\<close> and \<^verbatim>\<open>decode\<close> return \<^verbatim>\<open>None\<close> when they fail.\<close>

record WordProcessor =
  encode :: "string \<Rightarrow> int list option"
  decode :: "int list \<Rightarrow> string option"

text \<open>A generator is anything with \<^verbatim>\<open>run(seq_len, prompt)\<close>; \<open>'r\<close> is the state its
  randomness lives in, read and returned by every call.\<close>

type_synonym 'r generator = "'r \<Rightarrow> int \<Rightarrow> string \<Rightarrow> error + (string \<times> 'r)"

subsection \<open>TopPGenerator\<close>

record TopPGenerator =
  tp_model :: NGramLanguageModel
  tp_word_processor :: WordProcessor
  tp_p_value :: real

text \<open>\<^verbatim>\<open>key=lambda pair: (float(pair[1]), pair[0])\<close>; Python compares the tuples
  lexicographically.\<close>

definition token_key :: "int \<times> real \<Rightarrow> real \<times> int" where
  "token_key pair = (snd pair, fst pair)"

definition sorted_tokens :: "distribution \<Rightarrow> distribution" where
  "sorted_tokens tokens = py_sorted_reverse token_key tokens"

text \<open>The \<^verbatim>\<open>for index, (_, prob) in enumerate(sorted_tokens)\<close> loop of \<^verbatim>\<open>run\<close>: the index
  at which the running sum first reaches the threshold, \<open>None\<close> when the loop ends
  without \<^verbatim>\<open>break\<close>. The sum starts at \<open>0\<close> and \<^verbatim>\<open>sum_probability += prob\<close> is an
  addition of floats.\<close>

fun nucleus_index :: "real \<Rightarrow> real \<Rightarrow> nat \<Rightarrow> distribution \<Rightarrow> nat option" where
  "nucleus_index p sum_probability index [] = None"
| "nucleus_index p sum_probability index ((tok, prob) # rest) =
     (if float_add sum_probability prob \<ge> p then Some index
      else nucleus_index p (float_add sum_probability prob) (Suc index) rest)"

text \<open>One pass of the body of the \<^verbatim>\<open>while\<close> loop once the distribution is known to be
  non-empty: \<open>Inr None\<close> is the \<^verbatim>\<open>for ... else: break\<close>, \<open>Inr (Some (t, rnd'))\<close> is the
  token appended to \<^verbatim>\<open>encoded\<close>.\<close>

definition sample :: "real \<Rightarrow> distribution \<Rightarrow> rng \<Rightarrow> error + (int \<times> rng) option" where
  "sample p tokens rnd =
     (case nucleus_index p 0 0 (sorted_tokens tokens) of
        None \<Rightarrow> Inr None
      | Some index \<Rightarrow>
          (case choice (take (index + 1) (sorted_tokens tokens)) rnd of
             Inl e \<Rightarrow> Inl e
           | Inr (random_token, rnd') \<Rightarrow> Inr (Some (fst random_token, rnd'))))"

text \<open>The \<^verbatim>\<open>while seq_len >= 1\<close> loop.\<close>

function generate_loop ::
  "TopPGenerator \<Rightarrow> int \<Rightarrow> int list \<Rightarrow> rng \<Rightarrow> error + (int list \<times> rng)" where
  "generate_loop g seq_len encoded rnd =
     (if seq_len \<ge> 1 then
        (case generate_next_token (tp_model g) encoded of
           None \<Rightarrow> Inl (ValueError ''Model returned None instead of generated tokens.'')
         | Some tokens \<Rightarrow>
             if tokens = [] then Inr (encoded, rnd)
             else
               (case sample (tp_p_value g) tokens rnd of
                  Inl e \<Rightarrow> Inl e
                | Inr None \<Rightarrow> Inr (encoded, rnd)
                | Inr (Some (tok, rnd')) \<Rightarrow> generate_loop g (seq_len - 1) (encoded @ [tok]) rnd'))
      else Inr (encoded, rnd))"
  by pat_completeness auto
termination
  by (relation "measure (\<lambda>(g, seq_len, encoded, rnd). nat seq_len)") auto

definition TopPGenerator_run :: "TopPGenerator \<Rightarrow> rng generator" where
  "TopPGenerator_run g rnd seq_len prompt =
     (if \<not> (prompt \<noteq> [] \<and> seq_len > 0) then Inl (ValueError ''Inappropriate input.'')
      else
        (case encode (tp_word_processor g) prompt of
           None \<Rightarrow> Inl (ValueError ''Couldn't encode prompt.'')
         | Some encoded \<Rightarrow>
             if encoded = [] then Inl (ValueError ''Couldn't encode prompt.'')
             else
               (case generate_loop g seq_len encoded rnd of
                  Inl e \<Rightarrow> Inl e
                | Inr (encoded', rnd') \<Rightarrow>
                    (case decode (tp_word_processor g) encoded' of
                       None \<Rightarrow> Inl (ValueError ''Couldn't decode text.'')
                     | Some decoded \<Rightarrow>
                         if decoded = [] then Inl (ValueError ''Couldn't decode text.'')
                         else Inr (decoded, rnd')))))"

subsection \<open>GenerationResultDTO and QualityChecker\<close>

record GenerationResultDTO =
  get_text :: string
  get_perplexity :: real
  get_type :: int

record 'r QualityChecker =
  qc_generators :: "(int \<times> 'r generator) list"
  qc_language_model :: NGramLanguageModel
  qc_word_processor :: WordProcessor

text \<open>The \<^verbatim>\<open>for index in range(n_gram_size - 1, len(encoded))\<close> loop of
  \<^verbatim>\<open>_calculate_perplexity\<close>, over the indices still to visit.\<close>

fun perplexity_loop ::
  "NGramLanguageModel \<Rightarrow> int list \<Rightarrow> int \<Rightarrow> int list \<Rightarrow> real \<Rightarrow> error + real" where
  "perplexity_loop m encoded n_gram_size [] sum_log = Inr sum_log"
| "perplexity_loop m encoded n_gram_size (index # rest) sum_log =
     (let ctx = py_slice encoded (index - n_gram_size + 1) index in
      case py_index encoded index of
        Inl e \<Rightarrow> Inl e
      | Inr tok \<Rightarrow>
          (case generate_next_token m ctx of
             None \<Rightarrow> Inl (ValueError ''Couldn't generate tokens.'')
           | Some generated_tokens \<Rightarrow>
               if generated_tokens = [] then Inl (ValueError ''Couldn't generate tokens.'')
               else
                 (case map_of generated_tokens tok of
                    None \<Rightarrow> perplexity_loop m encoded n_gram_size rest sum_log
                  | Some probability \<Rightarrow>
                      if probability = 0
                      then perplexity_loop m encoded n_gram_size rest sum_log
                      else
                        (case py_log probability of
                           Inl e \<Rightarrow> Inl e
                         | Inr l \<Rightarrow>
                             perplexity_loop m encoded n_gram_size rest (sum_log + l)))))"

definition calculate_perplexity :: "'r QualityChecker \<Rightarrow> string \<Rightarrow> error + real" where
  "calculate_perplexity qc generated_text =
     (if generated_text = [] then Inl (ValueError ''Inappropriate input.'')
      else
        (case encode (qc_word_processor qc) generated_text of
           None \<Rightarrow> Inl (ValueError ''Couldn't encode prompt.'')
         | Some encoded \<Rightarrow>
             if encoded = [] then Inl (ValueError ''Couldn't encode prompt.'')
             else
               (let n_gram_size = get_n_gram_size (qc_language_model qc) in
                case perplexity_loop (qc_language_model qc) encoded n_gram_size
                       (py_range (n_gram_size - 1) (int (length encoded))) 0 of
                  Inl e \<Rightarrow> Inl e
                | Inr sum_log \<Rightarrow>
                    if sum_log = 0 then Inl (ValueError ''Sum of token probabilities is 0.'')
                    else if - (int (length encoded) - n_gram_size) = 0 then Inl ZeroDivisionError
                    else Inr (exp (sum_log / real_of_int (- (int (length encoded) - n_gram_size)))))))"

text \<open>The \<^verbatim>\<open>for gen_type, generator in self._generators.items()\<close> loop of
  \<^verbatim>\<open>QualityChecker.run\<close>.\<close>

fun check_generators ::
  "'r QualityChecker \<Rightarrow> int \<Rightarrow> string \<Rightarrow> (int \<times> 'r generator) list \<Rightarrow>
   GenerationResultDTO list \<Rightarrow> 'r \<Rightarrow> error + (GenerationResultDTO list \<times> 'r)" where
  "check_generators qc seq_len prompt [] results st = Inr (results, st)"
| "check_generators qc seq_len prompt ((gen_type, generator) # rest) results st =
     (case generator st seq_len prompt of
        Inl e \<Rightarrow> Inl e
      | Inr (txt, st') \<Rightarrow>
          if txt = [] then Inl (ValueError ''Text was not generated.'')
          else
            (case calculate_perplexity qc txt of
               Inl e \<Rightarrow> Inl e
             | Inr perplexity \<Rightarrow>
                 if perplexity = 0 then Inl (ValueError ''Perplexity was not calculated.'')
                 else check_generators qc seq_len prompt rest
                        (results @ [\<lparr>get_text = txt, get_perplexity = perplexity,
                                     get_type = gen_type\<rparr>]) st'))"

text \<open>\<^verbatim>\<open>key=lambda dto: (dto.get_perplexity(), dto.get_type())\<close>.\<close>

definition dto_key :: "GenerationResultDTO \<Rightarrow> real \<times> int" where
  "dto_key dto = (get_perplexity dto, get_type dto)"

definition QualityChecker_run ::
  "'r QualityChecker \<Rightarrow> 'r \<Rightarrow> int \<Rightarrow> string \<Rightarrow> error + (GenerationResultDTO list \<times> 'r)" where
  "QualityChecker_run qc st seq_len prompt =
     (if \<not> (prompt \<noteq> [] \<and> seq_len > 0) then Inl (ValueError ''Inappropriate input.'')
      else
        (case check_generators qc seq_len prompt (qc_generators qc) [] st of
           Inl e \<Rightarrow> Inl e
         | Inr (results, st') \<Rightarrow> Inr (py_sorted dto_key results, st')))"

subsection \<open>Examiner\<close>

text \<open>\<^verbatim>\<open>_questions_and_answers\<close>: the dict \<^verbatim>\<open>{(question, location): answer}\<close> loaded from
  the JSON file.\<close>

type_synonym questions_and_answers = "((string \<times> int) \<times> string) list"

definition provide_questions :: "questions_and_answers \<Rightarrow> (string \<times> int) list" where
  "provide_questions qa = map fst qa"

text \<open>\<^verbatim>\<open>str.lower\<close>, on ASCII text.\<close>

definition lower_char :: "char \<Rightarrow> char" where
  "lower_char c =
     (case map_of (zip ''ABCDEFGHIJKLMNOPQRSTUVWXYZ'' ''abcdefghijklmnopqrstuvwxyz'') c of
        None \<Rightarrow> c
      | Some l \<Rightarrow> l)"

definition lower :: "string \<Rightarrow> string" where
  "lower s = map lower_char s"

text \<open>\<^verbatim>\<open>next(ans for (que, loc), ans in self._questions_and_answers.items() if que == question)\<close>:
  the answer of the first stored task with this question; \<^verbatim>\<open>next\<close> raises
  \<^verbatim>\<open>StopIteration\<close> when there is none.\<close>

fun actual_answer :: "questions_and_answers \<Rightarrow> string \<Rightarrow> error + string" where
  "actual_answer [] question = Inl StopIteration"
| "actual_answer (((que, loc), ans) # rest) question =
     (if que = question then Inr ans else actual_answer rest question)"

fun count_true_answers ::
  "questions_and_answers \<Rightarrow> (string \<times> string) list \<Rightarrow> real \<Rightarrow> error + real" where
  "count_true_answers qa [] true_answers = Inr true_answers"
| "count_true_answers qa ((question, answer) # rest) true_answers =
     (case actual_answer qa question of
        Inl e \<Rightarrow> Inl e
      | Inr actual \<Rightarrow>
          count_true_answers qa rest
            (if lower actual = lower answer then true_answers + 1 else true_answers))"

definition assess_exam :: "questions_and_answers \<Rightarrow> (string \<times> string) list \<Rightarrow> error + real" where
  "assess_exam qa answers =
     (if answers = [] then Inl (ValueError ''Inappropriate input.'')
      else
        (case count_true_answers qa answers 0 of
           Inl e \<Rightarrow> Inl e
         | Inr true_answers \<Rightarrow> Inr (true_answers / real (length answers))))"

subsection \<open>GeneratorRuleStudent\<close>

text \<open>The \<^verbatim>\<open>for (question, position) in tasks\<close> loop of \<^verbatim>\<open>take_exam\<close>; \<^verbatim>\<open>answers\<close> is the
  dict built so far, and storing under a key already present replaces its value.\<close>

fun fill_answers ::
  "'r generator \<Rightarrow> (string \<times> int) list \<Rightarrow> (string \<times> string) list \<Rightarrow> 'r \<Rightarrow>
   error + ((string \<times> string) list \<times> 'r)" where
  "fill_answers gen [] answers st = Inr (answers, st)"
| "fill_answers gen ((question, position) # rest) answers st =
     (let ctx = py_slice_to question position in
      case gen st 1 ctx of
        Inl e \<Rightarrow> Inl e
      | Inr (answer, st') \<Rightarrow>
          if answer = [] then Inl (ValueError ''No answers were generated.'')
          else
            (let answer' = (if last answer = CHR ''.'' then butlast answer @ '' '' else answer)
             in fill_answers gen rest
                  (AList.update question (answer' @ py_slice_from question position) answers)
                  st'))"

definition take_exam ::
  "'r generator \<Rightarrow> 'r \<Rightarrow> (string \<times> int) list \<Rightarrow> error + ((string \<times> string) list \<times> 'r)" where
  "take_exam gen st tasks =
     (if tasks = [] then Inl (ValueError ''Inappropriate input.'')
      else fill_answers gen tasks [] st)"

section \<open>Notions the properties are stated with\<close>


text \<open>The sum of the probabilities of the first \<open>k\<close> pairs as floating-point addition
  accumulates it from \<open>acc\<close>, left to right.\<close>

definition running_sum :: "real \<Rightarrow> distribution \<Rightarrow> nat \<Rightarrow> real" where
  "running_sum acc xs k = foldl float_add acc (map snd (take k xs))"


text \<open>The reals that are doubles: an integer significand of at most 53 bits and a
  power of two not below the smallest subnormal number.\<close>

definition is_double :: "real \<Rightarrow> bool" where
  "is_double x \<longleftrightarrow>
     (\<exists>m e. x = of_int m * 2 powr of_int e \<and> \<bar>m\<bar> \<le> 2 ^ 53 \<and> - 1074 \<le> e)"

text \<open>A stream of draws that are all the same number.\<close>

definition constant_draws :: "nat \<Rightarrow> rng" where
  "constant_draws n k = n"

text \<open>The contexts at which \<^verbatim>\<open>TopPGenerator.run\<close> queries the model, in order.\<close>

function queried :: "TopPGenerator \<Rightarrow> int \<Rightarrow> int list \<Rightarrow> rng \<Rightarrow> int list list" where
  "queried g seq_len encoded rnd =
     (if seq_len \<ge> 1 then
        encoded #
        (case generate_next_token (tp_model g) encoded of
           None \<Rightarrow> []
         | Some tokens \<Rightarrow>
             if tokens = [] then []
             else
               (case sample (tp_p_value g) tokens rnd of
                  Inl e \<Rightarrow> []
                | Inr None \<Rightarrow> []
                | Inr (Some (tok, rnd')) \<Rightarrow> queried g (seq_len - 1) (encoded @ [tok]) rnd'))
      else [])"
  by pat_completeness auto
termination
  by (relation "measure (\<lambda>(g, seq_len, encoded, rnd). nat seq_len)") auto

text \<open>The \<open>n - 1\<close> tokens before position \<open>i\<close>.\<close>

definition context_at :: "int list \<Rightarrow> int \<Rightarrow> int \<Rightarrow> int list" where
  "context_at encoded n i = take (nat (n - 1)) (drop (nat (i - n + 1)) encoded)"

text \<open>The log-likelihood sum of the perplexity formula: position \<open>i\<close> contributes the
  natural logarithm of the probability that the distribution at the \<open>n - 1\<close> tokens
  before \<open>i\<close> gives to the token at \<open>i\<close>, and nothing when that probability is zero or
  missing. The sum runs over the positions \<open>n - 1, ..., L - 1\<close>.\<close>

definition log_contribution :: "NGramLanguageModel \<Rightarrow> int list \<Rightarrow> int \<Rightarrow> int \<Rightarrow> real" where
  "log_contribution m encoded n i =
     (case generate_next_token m (context_at encoded n i) of
        None \<Rightarrow> 0
      | Some d \<Rightarrow>
          (case map_of d (encoded ! nat i) of
             None \<Rightarrow> 0
           | Some pr \<Rightarrow> if pr = 0 then 0 else ln pr))"

definition log_sum :: "NGramLanguageModel \<Rightarrow> int list \<Rightarrow> int \<Rightarrow> real" where
  "log_sum m encoded n =
     sum_list (map (log_contribution m encoded n) [n - 1..int (length encoded) - 1])"

text \<open>The model answers the context before position \<open>i\<close> with a non-empty distribution
  that has no negative probability.\<close>

definition scorable :: "NGramLanguageModel \<Rightarrow> int list \<Rightarrow> int \<Rightarrow> int \<Rightarrow> bool" where
  "scorable m encoded n i \<longleftrightarrow>
     (case generate_next_token m (context_at encoded n i) of
        None \<Rightarrow> False
      | Some d \<Rightarrow> d \<noteq> [] \<and> list_all (\<lambda>pair. 0 \<le> snd pair) d)"

text \<open>The indices are positions of the encoded text from \<open>n - 1\<close> on.\<close>

definition in_text :: "int list \<Rightarrow> int \<Rightarrow> int list \<Rightarrow> bool" where
  "in_text enc n indices \<longleftrightarrow> list_all (\<lambda>i. n - 1 \<le> i \<and> i < int (length enc)) indices"

text \<open>The stored expected answer for a question.\<close>

definition expected_answer :: "questions_and_answers \<Rightarrow> string \<Rightarrow> string option" where
  "expected_answer qa question = map_of (map (\<lambda>((que, loc), ans). (que, ans)) qa) question"

text \<open>An answer is correct when it equals the stored expected answer for its question,
  compared case-insensitively.\<close>

definition is_correct :: "questions_and_answers \<Rightarrow> string \<times> string \<Rightarrow> bool" where
  "is_correct qa qa_pair =
     (case expected_answer qa (fst qa_pair) of
        None \<Rightarrow> False
      | Some expected \<Rightarrow> lower expected = lower (snd qa_pair))"

text \<open>The question has a stored expected answer.\<close>

definition is_stored :: "questions_and_answers \<Rightarrow> string \<times> string \<Rightarrow> bool" where
  "is_stored qa qa_pair \<longleftrightarrow> expected_answer qa (fst qa_pair) \<noteq> None"

text \<open>The fragment spliced into a question: a generated answer that ends with a full
  stop loses it and gains a trailing space.\<close>

definition fragment :: "string \<Rightarrow> string" where
  "fragment answer = (if last answer = CHR ''.'' then butlast answer @ '' '' else answer)"

declare generate_loop.simps [simp del] queried.simps [simp del]

section \<open>Example inputs\<close>






text \<open>The dict \<open>{0: 0.7, 1: 0.3}\<close> and a generator with that distribution and the
  threshold \<open>1.0\<close>.\<close>

definition unit_distribution :: distribution where
  "unit_distribution = [(0, round_double (7 / 10)), (1, round_double (3 / 10))]"

definition unit_generator :: "TopPGenerator" where
  "unit_generator =
     \<lparr>tp_model = \<lparr>generate_next_token = (\<lambda>c. Some unit_distribution), get_n_gram_size = 2\<rparr>,
      tp_word_processor = \<lparr>encode = (\<lambda>s. Some [7]), decode = (\<lambda>c. Some ''A.'')\<rparr>,
      tp_p_value = 1\<rparr>"

text \<open>A generator whose model has no continuation for any context and whose decoder
  fails on the sequence \<open>[0]\<close>.\<close>

definition undecodable_generator :: "TopPGenerator" where
  "undecodable_generator =
     \<lparr>tp_model = \<lparr>generate_next_token = (\<lambda>c. Some []), get_n_gram_size = 2\<rparr>,
      tp_word_processor = \<lparr>encode = (\<lambda>s. Some [0]), decode = (\<lambda>c. None)\<rparr>,
      tp_p_value = 1 / 2\<rparr>"

text \<open>A generator whose model continues the context \<open>[0]\<close> with the token \<open>1\<close>, has
  the empty distribution after \<open>[0, 1]\<close>, and gives the token \<open>2\<close> a total mass of \<open>1 / 4\<close>
  after \<open>[5]\<close>.\<close>

definition stopping_generator :: "TopPGenerator" where
  "stopping_generator =
     \<lparr>tp_model = \<lparr>generate_next_token =
                    (\<lambda>c. if c = [0] then Some [(1, 1)]
                         else if c = [5] then Some [(2, 1 / 4)] else Some []),
                  get_n_gram_size = 2\<rparr>,
      tp_word_processor = \<lparr>encode = (\<lambda>s. if s = ''a'' then Some [0] else Some [5]),
                           decode = (\<lambda>c. Some ''A b.'')\<rparr>,
      tp_p_value = 1 / 2\<rparr>"

text \<open>The same model and encoder with a decoder that yields the empty text.\<close>

definition wordless_generator :: "TopPGenerator" where
  "wordless_generator =
     \<lparr>tp_model = tp_model stopping_generator,
      tp_word_processor = \<lparr>encode = (\<lambda>s. if s = ''a'' then Some [0] else Some [5]),
                           decode = (\<lambda>c. Some [])\<rparr>,
      tp_p_value = 1 / 2\<rparr>"

text \<open>A checker without generators whose model gives the token \<open>1\<close> the probability \<open>1\<close>
  after every context, and whose encoder yields \<open>[0, 1, 1]\<close>.\<close>

definition certain_checker :: "unit QualityChecker" where
  "certain_checker =
     \<lparr>qc_generators = [],
      qc_language_model = \<lparr>generate_next_token = (\<lambda>c. Some [(1, 1)]), get_n_gram_size = 2\<rparr>,
      qc_word_processor = \<lparr>encode = (\<lambda>s. Some [0, 1, 1]), decode = (\<lambda>c. Some ''A b b.'')\<rparr>\<rparr>"

text \<open>A checker with two constant generators; its model gives the token \<open>1\<close> the
  probability \<open>1 / 2\<close> after \<open>[0]\<close>, knows only the token \<open>9\<close> after \<open>[1]\<close> and has the empty
  distribution elsewhere; its encoder yields \<open>[0, 1, 1]\<close>, and \<open>[0, 1, 5, 1]\<close> for
  \<open>''long''\<close>.\<close>

definition halving_model :: NGramLanguageModel where
  "halving_model =
     \<lparr>generate_next_token =
        (\<lambda>c. if c = [0] then Some [(1, 1 / 2)] else if c = [1] then Some [(9, 1)] else Some []),
      get_n_gram_size = 2\<rparr>"

definition constant_generator :: "string \<Rightarrow> unit generator" where
  "constant_generator txt st seq_len prompt = Inr (txt, st)"

definition halving_checker :: "unit QualityChecker" where
  "halving_checker =
     \<lparr>qc_generators = [(2, constant_generator ''A b b.''), (0, constant_generator ''A b b.'')],
      qc_language_model = halving_model,
      qc_word_processor =
        \<lparr>encode = (\<lambda>s. if s = ''long'' then Some [0, 1, 5, 1] else Some [0, 1, 1]),
         decode = (\<lambda>c. Some ''A b b.'')\<rparr>\<rparr>"

text \<open>A generator whose every answer is \<open>''the!''\<close>, one whose every answer is
  \<open>''the.''\<close>, and an exam with one stored task.\<close>

definition exclaiming_generator :: "unit generator" where
  "exclaiming_generator = constant_generator ''the!''"

definition stopping_student :: "unit generator" where
  "stopping_student = constant_generator ''the.''"

definition one_question :: questions_and_answers where
  "one_question = [((''q1'', 0), ''cat'')]"

section \<open>Floating-point addition\<close>

lemma round_half_even_of_int [simp]: "round_half_even (of_int n) = n"
  by (simp add: round_half_even_def)

lemma round_half_even_0 [simp]: "round_half_even 0 = 0"
  by (simp add: round_half_even_def)

lemma round_half_even_bounds: "\<lfloor>q\<rfloor> \<le> round_half_even q \<and> round_half_even q \<le> \<lfloor>q\<rfloor> + 1"
  by (simp add: round_half_even_def Let_def)

lemma round_half_even_mono:
  assumes "q \<le> r"
  shows "round_half_even q \<le> round_half_even r"
proof (cases "\<lfloor>q\<rfloor> = \<lfloor>r\<rfloor>")
  case True
  with assms show ?thesis by (auto simp add: round_half_even_def Let_def)
next
  case False
  with assms have "\<lfloor>q\<rfloor> < \<lfloor>r\<rfloor>" using floor_mono [of q r] by linarith
  with round_half_even_bounds [of q] round_half_even_bounds [of r] show ?thesis by linarith
qed

lemma two_powr_diff: "(2::real) powr of_int (int a - int n) = 2 ^ a / 2 ^ n"
proof -
  have "real_of_int (int a - int n) = real a - real n" by simp
  then show ?thesis by (simp only: powr_diff) (simp add: powr_realpow)
qed

lemma ulp_exponent_at:
  assumes "2 ^ 52 \<le> \<bar>x\<bar> * 2 ^ n" and "\<bar>x\<bar> * 2 ^ n < 2 ^ 53" and "n \<le> 1074"
  shows "ulp_exponent x = - int n"
proof -
  have "x \<noteq> 0" using assms(1) by auto
  then have x: "0 < \<bar>x\<bar>" by simp
  have p: "(2::real) powr of_int (int 52 - int n) = 2 ^ 52 / 2 ^ n"
    and p1: "(2::real) powr of_int (int 53 - int n) = 2 ^ 53 / 2 ^ n"
    by (rule two_powr_diff)+
  have "2 powr of_int (int 52 - int n) \<le> \<bar>x\<bar>"
    using assms(1) by (simp only: p) (simp add: field_simps)
  moreover have "\<bar>x\<bar> < 2 powr (of_int (int 52 - int n) + 1)"
  proof -
    have "real_of_int (int 52 - int n) + 1 = of_int (int 53 - int n)" by simp
    then show ?thesis using assms(2) by (simp only: p1) (simp add: field_simps)
  qed
  ultimately have "\<lfloor>log 2 \<bar>x\<bar>\<rfloor> = int 52 - int n"
    using x by (simp add: floor_log_eq_powr_iff)
  with assms(3) show ?thesis by (simp add: ulp_exponent_def)
qed

lemma round_double_at:
  assumes "2 ^ 52 \<le> \<bar>x\<bar> * 2 ^ n" and "\<bar>x\<bar> * 2 ^ n < 2 ^ 53" and "n \<le> 1074"
  shows "round_double x = of_int (round_half_even (x * 2 ^ n)) / 2 ^ n"
proof -
  from assms(1) have x: "x \<noteq> 0" by auto
  have "(2::real) powr of_int (- int n) = 1 / 2 ^ n"
    using two_powr_diff [of 0 n] by simp
  with x ulp_exponent_at [OF assms] show ?thesis by (simp add: round_double_def)
qed


lemma ulp_exponent_ge: "- 1074 \<le> ulp_exponent x"
  by (simp add: ulp_exponent_def)

lemma round_double_eq:
  "round_double x
     = of_int (round_half_even (x / 2 powr of_int (ulp_exponent x)))
         * 2 powr of_int (ulp_exponent x)"
  by (simp add: round_double_def)

lemma two_powr_nonneg_int:
  assumes "0 \<le> k"
  shows "(2::real) powr of_int k = of_int (2 ^ nat k)"
  using assms by (simp add: powr_real_of_int)

lemma abs_less_ulp:
  assumes "x \<noteq> 0"
  shows "\<bar>x\<bar> < 2 powr of_int (ulp_exponent x + 53)"
proof -
  from assms have x: "0 < \<bar>x\<bar>" by simp
  have "log 2 \<bar>x\<bar> < of_int (\<lfloor>log 2 \<bar>x\<bar>\<rfloor> + 1)" by linarith
  also have "\<dots> \<le> of_int (ulp_exponent x + 53)"
    by (simp add: ulp_exponent_def)
  finally have "log 2 \<bar>x\<bar> < of_int (ulp_exponent x + 53)" .
  then have "2 powr log 2 \<bar>x\<bar> < 2 powr of_int (ulp_exponent x + 53)"
    by simp
  with x show ?thesis by simp
qed

lemma round_double_is_double: "is_double (round_double x)"
proof (cases "x = 0")
  case True
  have "(0::real) = of_int 0 * 2 powr of_int 0" by simp
  then have "is_double 0" unfolding is_double_def by (metis abs_zero zero_le_power zero_le_numeral neg_le_0_iff_le)
  with True show ?thesis by (simp add: round_double_def)
next
  case False
  let ?e = "ulp_exponent x"
  let ?g = "(2::real) powr of_int ?e"
  let ?m = "round_half_even (x / ?g)"
  have g: "0 < ?g" by simp
  have "?g * 2 ^ 53 = 2 powr of_int (?e + 53)"
    by (simp add: powr_add)
  with abs_less_ulp [OF False] have "\<bar>x\<bar> < ?g * 2 ^ 53" by simp
  with g have "\<bar>x / ?g\<bar> < 2 ^ 53" by (simp add: field_simps)
  then have "x / ?g < 2 ^ 53" "- (x / ?g) < 2 ^ 53" by (simp_all only: abs_less_iff)
  then have b: "of_int (- (2 ^ 53)) \<le> x / ?g" "x / ?g \<le> of_int (2 ^ 53)" by simp_all
  from round_half_even_mono [OF b(1)] round_half_even_mono [OF b(2)]
  have "\<bar>?m\<bar> \<le> 2 ^ 53" by (simp only: round_half_even_of_int abs_le_iff) simp
  moreover have "- 1074 \<le> ?e" by (rule ulp_exponent_ge)
  ultimately show ?thesis
    unfolding is_double_def round_double_eq by blast
qed

lemma is_double_0: "is_double 0"
  using round_double_is_double [of 0] by (simp add: round_double_def)

lemma round_double_multiple:
  assumes "s = of_int j * 2 powr of_int (ulp_exponent s)"
  shows "round_double s = s"
proof -
  define g where "g = (2::real) powr of_int (ulp_exponent s)"
  have g: "0 < g" by (simp add: g_def)
  from assms have s: "of_int j * g = s" by (simp only: g_def)
  from g have "of_int j * g / g = of_int j" by simp
  then have q: "s / g = of_int j" by (simp only: s)
  have "round_double s = of_int (round_half_even (s / g)) * g"
    by (simp only: round_double_eq g_def)
  also have "\<dots> = of_int j * g" by (simp only: q round_half_even_of_int)
  finally show ?thesis by (simp only: s)
qed

lemma round_double_fixes:
  assumes "is_double s"
  shows "round_double s = s"
proof -
  from assms obtain m e0 where s: "s = of_int m * 2 powr of_int e0"
    and m: "\<bar>m\<bar> \<le> 2 ^ 53" and e0: "- 1074 \<le> e0"
    unfolding is_double_def by blast
  define u where "u = ulp_exponent s"
  define l where "l = \<lfloor>log 2 \<bar>s\<bar>\<rfloor>"
  have ul: "u = max (l - 52) (- 1074)" by (simp add: u_def l_def ulp_exponent_def)
  define g0 where "g0 = (2::real) powr of_int e0"
  have g0: "0 < g0" by (simp add: g0_def)
  have sm: "s = of_int m * g0" by (simp add: s g0_def)
  show ?thesis
  proof (cases "m = 0")
    case True
    with sm show ?thesis by (simp add: round_double_def)
  next
    case m0: False
    have abs_s: "\<bar>s\<bar> = of_int \<bar>m\<bar> * g0"
      using g0 by (simp add: sm abs_mult)
    from m0 g0 have spos: "0 < \<bar>s\<bar>" by (simp add: sm)
    have p53: "2 ^ 53 * g0 = 2 powr of_int (e0 + 53)"
      by (simp add: g0_def powr_add)
    show ?thesis
    proof (cases "\<bar>m\<bar> = 2 ^ 53")
      case True
      then have "real_of_int \<bar>m\<bar> = 2 ^ 53" by simp
      then have "\<bar>s\<bar> = 2 powr of_int (e0 + 53)"
        by (simp only: abs_s p53)
      then have "log 2 \<bar>s\<bar> = of_int (e0 + 53)" by simp
      then have "l = e0 + 53" by (simp only: l_def floor_of_int)
      with e0 ul have u: "u = e0 + 1" by simp
      from True have "m = 2 ^ 53 \<or> m = - (2 ^ 53)" by linarith
      then have "m = 2 * (m div 2)" by auto
      then have "real_of_int m = 2 * real_of_int (m div 2)"
        by (metis of_int_mult of_int_numeral)
      moreover have "(2::real) powr of_int u = 2 * g0"
        by (simp add: u g0_def powr_add)
      ultimately have "s = of_int (m div 2) * 2 powr of_int u"
        by (simp only: sm)
      then show ?thesis unfolding u_def by (rule round_double_multiple)
    next
      case False
      with m have "\<bar>m\<bar> < 2 ^ 53" by simp
      then have "real_of_int \<bar>m\<bar> < real_of_int (2 ^ 53)" by (simp only: of_int_less_iff)
      then have "real_of_int \<bar>m\<bar> < 2 ^ 53" by simp
      with g0 have "\<bar>s\<bar> < 2 ^ 53 * g0" by (simp only: abs_s mult_less_cancel_right_pos)
      then have "\<bar>s\<bar> < 2 powr of_int (e0 + 53)" by (simp only: p53)
      then have "log 2 \<bar>s\<bar> < of_int (e0 + 53)"
        using spos by (simp add: log_less_iff)
      then have "l < e0 + 53" by (simp only: l_def floor_less_iff)
      with e0 ul have u: "u \<le> e0" by simp
      then have "0 \<le> e0 - u" by simp
      from two_powr_nonneg_int [OF this]
      have pw: "(2::real) powr of_int (e0 - u) = of_int (2 ^ nat (e0 - u))" .
      have "g0 = 2 powr of_int (e0 - u) * 2 powr of_int u"
        by (simp add: g0_def flip: powr_add)
      with pw have "g0 = of_int (2 ^ nat (e0 - u)) * 2 powr of_int u" by simp
      then have "s = of_int (m * 2 ^ nat (e0 - u)) * 2 powr of_int u"
        by (simp only: sm of_int_mult mult.assoc)
      then show ?thesis unfolding u_def by (rule round_double_multiple)
    qed
  qed
qed

lemma round_double_nonneg:
  assumes "0 \<le> y"
  shows "0 \<le> round_double y"
proof -
  have "0 \<le> y / 2 powr of_int (ulp_exponent y)" using assms by simp
  from round_half_even_mono [OF this] have "0 \<le> round_half_even (y / 2 powr of_int (ulp_exponent y))"
    by simp
  then show ?thesis by (simp add: round_double_eq)
qed

lemma ulp_exponent_mono:
  assumes "0 < x" and "x \<le> y"
  shows "ulp_exponent x \<le> ulp_exponent y"
proof -
  from assms have "log 2 \<bar>x\<bar> \<le> log 2 \<bar>y\<bar>" by simp
  then have "\<lfloor>log 2 \<bar>x\<bar>\<rfloor> \<le> \<lfloor>log 2 \<bar>y\<bar>\<rfloor>" by (rule floor_mono)
  then show ?thesis by (simp add: ulp_exponent_def)
qed

lemma round_double_mono_pos:
  assumes "0 < x" and "x \<le> y"
  shows "round_double x \<le> round_double y"
proof -
  let ?e = "ulp_exponent x" and ?e' = "ulp_exponent y"
  let ?g = "(2::real) powr of_int ?e" and ?g' = "(2::real) powr of_int ?e'"
  from assms have y: "0 < y" by simp
  have le: "?e \<le> ?e'" by (rule ulp_exponent_mono [OF assms])
  show ?thesis
  proof (cases "?e = ?e'")
    case True
    from assms(2) have "x / ?g \<le> y / ?g" by (simp add: divide_right_mono)
    from round_half_even_mono [OF this]
    have "real_of_int (round_half_even (x / ?g)) * ?g \<le> real_of_int (round_half_even (y / ?g)) * ?g"
      by (simp add: mult_right_mono)
    with True show ?thesis by (simp add: round_double_eq)
  next
    case False
    with le have lt: "?e < ?e'" by simp
    let ?k = "?e' + 52"
    let ?b = "(2::real) powr of_int ?k"
    from lt ulp_exponent_ge [of x] have "- 1074 < ?e'" by simp
    then have ky: "\<lfloor>log 2 \<bar>y\<bar>\<rfloor> = ?k" by (simp add: ulp_exponent_def max_def split: if_splits)
    have "?e \<ge> \<lfloor>log 2 \<bar>x\<bar>\<rfloor> - 52" by (simp add: ulp_exponent_def)
    with lt have kx: "\<lfloor>log 2 \<bar>x\<bar>\<rfloor> < ?k" by simp
    have "of_int ?k \<le> log 2 y" using ky y by (metis abs_of_pos of_int_floor_le)
    then have by': "?b \<le> y" using y by (simp add: le_log_iff)
    have "log 2 x < of_int ?k" using kx assms(1) by (simp add: floor_less_iff)
    then have xb: "x < ?b" using assms(1) by (simp add: log_less_iff)
    have "?b / ?g' = of_int (2 ^ 52)"
      by (simp add: powr_add)
    moreover from by' have "?b / ?g' \<le> y / ?g'" by (simp add: divide_right_mono)
    ultimately have "of_int (2 ^ 52) \<le> y / ?g'" by simp
    from round_half_even_mono [OF this]
    have "2 ^ 52 \<le> round_half_even (y / ?g')" by (simp only: round_half_even_of_int)
    then have "real_of_int (2 ^ 52) \<le> real_of_int (round_half_even (y / ?g'))"
      by (simp only: of_int_le_iff)
    then have "real_of_int (2 ^ 52) * ?g' \<le> real_of_int (round_half_even (y / ?g')) * ?g'"
      by (simp add: mult_right_mono)
    moreover have "real_of_int (2 ^ 52) * ?g' = ?b" by (simp add: powr_add)
    ultimately have up: "?b \<le> round_double y" by (simp only: round_double_eq)
    from lt have "0 \<le> ?k - ?e" by simp
    from two_powr_nonneg_int [OF this]
    have pk: "(2::real) powr of_int (?k - ?e) = of_int (2 ^ nat (?k - ?e))" .
    have "?b = 2 powr of_int (?k - ?e) * ?g" by (simp flip: powr_add)
    with pk have bg: "?b = of_int (2 ^ nat (?k - ?e)) * ?g" by simp
    then have "?b / ?g = of_int (2 ^ nat (?k - ?e))" by simp
    moreover from xb have "x / ?g \<le> ?b / ?g" by (simp add: divide_right_mono)
    ultimately have "x / ?g \<le> of_int (2 ^ nat (?k - ?e))" by simp
    from round_half_even_mono [OF this]
    have "round_half_even (x / ?g) \<le> 2 ^ nat (?k - ?e)" by (simp only: round_half_even_of_int)
    then have "real_of_int (round_half_even (x / ?g)) \<le> real_of_int (2 ^ nat (?k - ?e))"
      by (simp only: of_int_le_iff)
    then have "real_of_int (round_half_even (x / ?g)) * ?g \<le> real_of_int (2 ^ nat (?k - ?e)) * ?g"
      by (simp add: mult_right_mono)
    with bg have "round_double x \<le> ?b" by (simp only: round_double_eq)
    with up show ?thesis by simp
  qed
qed

lemma float_add_grows:
  assumes "is_double s" and "0 \<le> s" and "0 \<le> x"
  shows "s \<le> float_add s x"
proof (cases "s = 0")
  case True
  with assms(3) show ?thesis by (simp add: float_add_def round_double_nonneg)
next
  case False
  with assms(2) have "0 < s" by simp
  moreover from assms(3) have "s \<le> s + x" by simp
  ultimately have "round_double s \<le> round_double (s + x)" by (rule round_double_mono_pos)
  with round_double_fixes [OF assms(1)] show ?thesis by (simp add: float_add_def)
qed

text \<open>Evaluating a rounding and an addition whose exact result has its last place at
  \<open>2\<close> to the power \<open>- n\<close>.\<close>

lemma float_add_at:
  assumes "2 ^ 52 \<le> \<bar>x + y\<bar> * 2 ^ n" and "\<bar>x + y\<bar> * 2 ^ n < 2 ^ 53" and "n \<le> 1074"
  shows "float_add x y = of_int (round_half_even ((x + y) * 2 ^ n)) / 2 ^ n"
  unfolding float_add_def using assms by (rule round_double_at)

lemmas round_double_eval =
  round_double_at [where n = 50] round_double_at [where n = 51] round_double_at [where n = 52]
  round_double_at [where n = 53] round_double_at [where n = 54] round_double_at [where n = 55]
  round_double_at [where n = 56] round_double_at [where n = 57] round_double_at [where n = 58]
  round_double_at [where n = 59] round_double_at [where n = 60]

lemmas float_add_eval =
  float_add_at [where n = 50] float_add_at [where n = 51] float_add_at [where n = 52]
  float_add_at [where n = 53] float_add_at [where n = 54] float_add_at [where n = 55]
  float_add_at [where n = 56] float_add_at [where n = 57] float_add_at [where n = 58]
  float_add_at [where n = 59] float_add_at [where n = 60]

lemma float_add_0: "float_add 0 0 = 0"
  by (simp add: float_add_def round_double_def)

text \<open>The machine's sums at the inputs of the examples: \<open>0.5 + 0.3\<close> is the double
  \<open>0.8\<close>, \<open>0.7 + 0.3\<close> is \<open>1.0\<close> although the two doubles add up to less than \<open>1\<close>, and
  \<open>0.54 + 0.18 + 0.18\<close> stays below the double \<open>0.9\<close> although the three doubles add up
  to it exactly.\<close>

lemma float_literals:
  "round_double (3 / 10) = 5404319552844595 / 2 ^ 54"
  "round_double (1 / 5) = 3602879701896397 / 2 ^ 54"
  "round_double (7 / 10) = 3152519739159347 / 2 ^ 52"
  "round_double (4 / 5) = 3602879701896397 / 2 ^ 52"
  "round_double (27 / 50) = 607985949695017 / 2 ^ 50"
  "round_double (9 / 50) = 3242591731706757 / 2 ^ 54"
  "round_double (1 / 10) = 3602879701896397 / 2 ^ 55"
  "round_double (9 / 10) = 8106479329266893 / 2 ^ 53"
  "round_double (1 / 2) = 1 / 2"
  "round_double (1 / 4) = 1 / 4"
  "round_double 1 = 1"
  by (simp_all add: round_double_eval round_half_even_def)

lemma float_sums:
  "float_add (round_double (1 / 2)) (round_double (3 / 10)) = round_double (4 / 5)"
  "float_add (round_double (7 / 10)) (round_double (3 / 10)) = 1"
  "round_double (7 / 10) + round_double (3 / 10) < 1"
  "float_add (float_add (round_double (27 / 50)) (round_double (9 / 50)))
     (round_double (9 / 50)) < round_double (9 / 10)"
  "round_double (27 / 50) + round_double (9 / 50) + round_double (9 / 50)
     = round_double (9 / 10)"
  by (simp_all add: float_literals float_add_eval round_half_even_def)

section \<open>The nucleus of top-p sampling\<close>

lemma running_sum_Cons:
  "running_sum acc (x # xs) (Suc k) = running_sum (float_add acc (snd x)) xs k"
  by (simp add: running_sum_def)

lemma running_sum_0: "running_sum acc xs 0 = acc"
  by (simp add: running_sum_def)

text \<open>What the scan returns, for any starting sum and index: the first position at
  which the running sum reaches the threshold.\<close>

lemma nucleus_index_Some:
  "nucleus_index p s i xs = Some k \<Longrightarrow>
     i \<le> k \<and> k - i < length xs \<and> p \<le> running_sum s xs (Suc (k - i)) \<and>
     (\<forall>j. 1 \<le> j \<and> j \<le> k - i \<longrightarrow> running_sum s xs j < p)"
proof (induction xs arbitrary: s i)
  case Nil
  then show ?case by simp
next
  case (Cons x xs)
  obtain tok prob where x: "x = (tok, prob)" by (cases x)
  show ?case
  proof (cases "p \<le> float_add s prob")
    case True
    with Cons.prems x have "k = i" by simp
    with True x show ?thesis by (simp add: running_sum_Cons running_sum_0)
  next
    case False
    with Cons.prems x have rec: "nucleus_index p (float_add s prob) (Suc i) xs = Some k"
      by simp
    from Cons.IH [OF rec] have ih:
      "Suc i \<le> k" "k - Suc i < length xs"
      "p \<le> running_sum (float_add s prob) xs (Suc (k - Suc i))"
      "\<forall>j. 1 \<le> j \<and> j \<le> k - Suc i \<longrightarrow> running_sum (float_add s prob) xs j < p"
      by auto
    from ih(1) have ki: "k - i = Suc (k - Suc i)" by arith
    have "\<forall>j. 1 \<le> j \<and> j \<le> k - i \<longrightarrow> running_sum s (x # xs) j < p"
    proof (intro allI impI)
      fix j assume j: "1 \<le> j \<and> j \<le> k - i"
      then obtain j' where j': "j = Suc j'" by (cases j) auto
      show "running_sum s (x # xs) j < p"
      proof (cases j')
        case 0
        with j' False x show ?thesis by (simp add: running_sum_Cons running_sum_0)
      next
        case (Suc m)
        with j j' ki have "1 \<le> j' \<and> j' \<le> k - Suc i" by simp
        with ih(4) have "running_sum (float_add s prob) xs j' < p" by blast
        with j' x show ?thesis by (simp add: running_sum_Cons)
      qed
    qed
    with ih ki x show ?thesis by (simp add: running_sum_Cons)
  qed
qed

lemma nucleus_index_None:
  "nucleus_index p s i xs = None \<longleftrightarrow>
     (\<forall>j. 1 \<le> j \<and> j \<le> length xs \<longrightarrow> running_sum s xs j < p)"
proof (induction xs arbitrary: s i)
  case Nil
  then show ?case by simp
next
  case (Cons x xs)
  obtain tok prob where x: "x = (tok, prob)" by (cases x)
  show ?case
  proof (cases "p \<le> float_add s prob")
    case True
    then have "\<not> running_sum s (x # xs) 1 < p" using x by (simp add: running_sum_def)
    then have "\<not> (\<forall>j. 1 \<le> j \<and> j \<le> length (x # xs) \<longrightarrow> running_sum s (x # xs) j < p)"
      by (metis One_nat_def Suc_leI le_refl length_Cons zero_less_Suc)
    with True x show ?thesis by simp
  next
    case False
    have "(\<forall>j. 1 \<le> j \<and> j \<le> length (x # xs) \<longrightarrow> running_sum s (x # xs) j < p)
        \<longleftrightarrow> (\<forall>j. 1 \<le> j \<and> j \<le> length xs \<longrightarrow> running_sum (float_add s prob) xs j < p)"
      (is "?L \<longleftrightarrow> ?R")
    proof
      assume l: ?L
      show ?R
      proof (intro allI impI)
        fix j assume "1 \<le> j \<and> j \<le> length xs"
        then have "1 \<le> Suc j \<and> Suc j \<le> length (x # xs)" by simp
        with l have "running_sum s (x # xs) (Suc j) < p" by blast
        with x show "running_sum (float_add s prob) xs j < p" by (simp add: running_sum_Cons)
      qed
    next
      assume r: ?R
      show ?L
      proof (intro allI impI)
        fix j assume j: "1 \<le> j \<and> j \<le> length (x # xs)"
        then obtain j' where j': "j = Suc j'" by (cases j) auto
        show "running_sum s (x # xs) j < p"
        proof (cases j')
          case 0
          with j' False x show ?thesis by (simp add: running_sum_Cons running_sum_0)
        next
          case (Suc m)
          with j j' have "1 \<le> j' \<and> j' \<le> length xs" by simp
          with r have "running_sum (float_add s prob) xs j' < p" by blast
          with j' x show ?thesis by (simp add: running_sum_Cons)
        qed
      qed
    qed
    with False x Cons.IH [of "float_add s prob" "Suc i"] show ?thesis by simp
  qed
qed

lemma mset_sorted_tokens: "mset (sorted_tokens tokens) = mset tokens"
  by (simp add: sorted_tokens_def py_sorted_reverse_def)

lemma length_sorted_tokens: "length (sorted_tokens tokens) = length tokens"
  by (simp add: sorted_tokens_def py_sorted_reverse_def)




text \<open>The \<^verbatim>\<open>for\<close> loop ends without \<^verbatim>\<open>break\<close> exactly when no non-empty prefix of the
  sorted pairs reaches the threshold.\<close>

lemma sample_None:
  "sample p tokens rnd = Inr None \<longleftrightarrow>
     (\<forall>k. 1 \<le> k \<and> k \<le> length tokens \<longrightarrow> running_sum 0 (sorted_tokens tokens) k < p)"
proof (cases "nucleus_index p 0 0 (sorted_tokens tokens)")
  case None
  then show ?thesis
    using nucleus_index_None [of p 0 0 "sorted_tokens tokens"]
    by (simp add: sample_def length_sorted_tokens)
next
  case (Some index)
  then have "\<not> (\<forall>k. 1 \<le> k \<and> k \<le> length tokens \<longrightarrow>
      running_sum 0 (sorted_tokens tokens) k < p)"
    using nucleus_index_None [of p 0 0 "sorted_tokens tokens"]
    by (simp add: length_sorted_tokens)
  moreover have "sample p tokens rnd \<noteq> Inr None"
    using Some by (simp add: sample_def choice_def)
  ultimately show ?thesis by simp
qed


lemma sample_no_error: "sample p tokens rnd \<noteq> Inl e"
proof (cases "nucleus_index p 0 0 (sorted_tokens tokens)")
  case None
  then show ?thesis by (simp add: sample_def)
next
  case (Some index)
  from nucleus_index_Some [OF Some] have "sorted_tokens tokens \<noteq> []" by auto
  with Some show ?thesis by (simp add: sample_def choice_def)
qed


lemma constant_draws_rest: "(\<lambda>k. constant_draws n (Suc k)) = constant_draws n"
  by (rule ext) (simp add: constant_draws_def)











section \<open>The generation loop\<close>

lemma loop_done:
  "\<not> 1 \<le> n \<Longrightarrow> generate_loop g n enc rnd = Inr (enc, rnd) \<and> queried g n enc rnd = []"
  by (simp add: generate_loop.simps [of g n] queried.simps [of g n])

lemma loop_null:
  "1 \<le> n \<Longrightarrow> generate_next_token (tp_model g) enc = None \<Longrightarrow>
     generate_loop g n enc rnd
       = Inl (ValueError ''Model returned None instead of generated tokens.'') \<and>
     queried g n enc rnd = [enc]"
  by (simp add: generate_loop.simps [of g n] queried.simps [of g n])

lemma loop_empty:
  "1 \<le> n \<Longrightarrow> generate_next_token (tp_model g) enc = Some [] \<Longrightarrow>
     generate_loop g n enc rnd = Inr (enc, rnd) \<and> queried g n enc rnd = [enc]"
  by (simp add: generate_loop.simps [of g n] queried.simps [of g n])

lemma loop_below:
  "1 \<le> n \<Longrightarrow> generate_next_token (tp_model g) enc = Some tokens \<Longrightarrow>
     sample (tp_p_value g) tokens rnd = Inr None \<Longrightarrow>
     generate_loop g n enc rnd = Inr (enc, rnd) \<and> queried g n enc rnd = [enc]"
  by (simp add: generate_loop.simps [of g n] queried.simps [of g n])

lemma loop_step:
  "1 \<le> n \<Longrightarrow> generate_next_token (tp_model g) enc = Some tokens \<Longrightarrow> tokens \<noteq> [] \<Longrightarrow>
     sample (tp_p_value g) tokens rnd = Inr (Some (t, rnd')) \<Longrightarrow>
     generate_loop g n enc rnd = generate_loop g (n - 1) (enc @ [t]) rnd' \<and>
     queried g n enc rnd = enc # queried g (n - 1) (enc @ [t]) rnd'"
  by (simp add: generate_loop.simps [of g n] queried.simps [of g n])

text \<open>Whether the \<^verbatim>\<open>for\<close> loop breaks does not depend on the random draws.\<close>

lemma sample_None_any: "sample p tokens rnd = Inr None \<Longrightarrow> sample p tokens rnd2 = Inr None"
  by (simp add: sample_None)

text \<open>The five ways one pass of the loop can go.\<close>

lemma loop_cases:
  obtains (finished) "\<not> 1 \<le> n"
  | (null) "1 \<le> n" "generate_next_token (tp_model g) enc = None"
  | (empty) "1 \<le> n" "generate_next_token (tp_model g) enc = Some []"
  | (below) tokens where "1 \<le> n" "generate_next_token (tp_model g) enc = Some tokens"
      "tokens \<noteq> []" "sample (tp_p_value g) tokens rnd = Inr None"
  | (step) tokens t rnd' where "1 \<le> n" "generate_next_token (tp_model g) enc = Some tokens"
      "tokens \<noteq> []" "sample (tp_p_value g) tokens rnd = Inr (Some (t, rnd'))"
proof (cases "1 \<le> n")
  case False
  then show ?thesis by (rule finished)
next
  case n: True
  show ?thesis
  proof (cases "generate_next_token (tp_model g) enc")
    case None
    with n show ?thesis by (rule null)
  next
    case (Some tokens)
    show ?thesis
    proof (cases "tokens = []")
      case True
      with n Some show ?thesis by (auto intro: empty)
    next
      case ne: False
      show ?thesis
      proof (cases "sample (tp_p_value g) tokens rnd")
        case (Inl e)
        then show ?thesis by (simp add: sample_no_error)
      next
        case (Inr r)
        show ?thesis
        proof (cases r)
          case None
          with n Some ne Inr show ?thesis by (auto intro: below)
        next
          case (Some tr)
          obtain t rnd' where "tr = (t, rnd')" by (cases tr)
          with n \<open>generate_next_token (tp_model g) enc = Some tokens\<close> ne Inr Some
          show ?thesis by (auto intro: step)
        qed
      qed
    qed
  qed
qed

text \<open>The loop raises exactly when the model answers \<^verbatim>\<open>None\<close> at a context it is asked
  about, and then with the \<^verbatim>\<open>ValueError\<close> of that check.\<close>

lemma generate_loop_error:
  "generate_loop g n enc rnd = Inl e \<longleftrightarrow>
     e = ValueError ''Model returned None instead of generated tokens.'' \<and>
     (\<exists>c \<in> set (queried g n enc rnd). generate_next_token (tp_model g) c = None)"
proof (induction g n enc rnd rule: generate_loop.induct)
  case (1 g n enc rnd)
  show ?case
  proof (cases rule: loop_cases [where n = n and g = g and enc = enc and rnd = rnd])
    case finished
    then show ?thesis using loop_done [of n g enc rnd] by simp
  next
    case null
    then show ?thesis using loop_null [of n g enc rnd] by auto
  next
    case empty
    then show ?thesis using loop_empty [of n g enc rnd] by simp
  next
    case (below tokens)
    then show ?thesis using loop_below [of n g enc tokens rnd] by simp
  next
    case (step tokens t rnd')
    from "1.IH" [OF step(1) step(2) step(3) step(4) refl refl]
    have ih: "generate_loop g (n - 1) (enc @ [t]) rnd' = Inl e \<longleftrightarrow>
        e = ValueError ''Model returned None instead of generated tokens.'' \<and>
        (\<exists>c \<in> set (queried g (n - 1) (enc @ [t]) rnd'). generate_next_token (tp_model g) c = None)" .
    from step show ?thesis using loop_step [of n g enc tokens rnd t rnd'] ih by simp
  qed
qed

text \<open>When the model has the empty distribution, or one whose sorted prefixes all stay
  below the threshold, at a context it is asked about, the loop ends there and returns
  that context: the tokens accumulated so far.\<close>

lemma generate_loop_stops:
  "c \<in> set (queried g n enc rnd) \<Longrightarrow>
   generate_next_token (tp_model g) c = Some tokens \<Longrightarrow>
   tokens = [] \<or> sample (tp_p_value g) tokens rnd0 = Inr None \<Longrightarrow>
   \<exists>rnd'. generate_loop g n enc rnd = Inr (c, rnd')"
proof (induction g n enc rnd rule: generate_loop.induct)
  case (1 g n enc rnd)
  note mem = "1.prems"(1) and dist = "1.prems"(2) and halt = "1.prems"(3)
  show ?case
  proof (cases rule: loop_cases [where n = n and g = g and enc = enc and rnd = rnd])
    case finished
    with mem show ?thesis using loop_done [of n g enc rnd] by simp
  next
    case null
    with mem dist show ?thesis using loop_null [of n g enc rnd] by simp
  next
    case empty
    with mem show ?thesis using loop_empty [of n g enc rnd] by simp
  next
    case (below tks)
    with mem show ?thesis using loop_below [of n g enc tks rnd] by simp
  next
    case (step tks t rnd')
    note st = loop_step [OF step]
    show ?thesis
    proof (cases "c = enc")
      case True
      with step(2) dist have "tks = tokens" by simp
      with step(3,4) halt sample_None_any [of "tp_p_value g" tokens rnd0 rnd]
      show ?thesis by simp
    next
      case False
      with mem st have "c \<in> set (queried g (n - 1) (enc @ [t]) rnd')" by simp
      from "1.IH" [OF step(1) step(2) step(3) step(4) refl refl this dist halt] st
      show ?thesis by simp
    qed
  qed
qed

text \<open>Every context the model is asked about extends the encoded prompt by fewer
  tokens than were requested.\<close>

lemma queried_length:
  "c \<in> set (queried g n enc rnd) \<Longrightarrow>
     take (length enc) c = enc \<and> int (length c) < int (length enc) + n"
proof (induction g n enc rnd rule: generate_loop.induct)
  case (1 g n enc rnd)
  note mem = "1.prems"
  show ?case
  proof (cases rule: loop_cases [where n = n and g = g and enc = enc and rnd = rnd])
    case finished
    with mem show ?thesis using loop_done [of n g enc rnd] by simp
  next
    case null
    with mem show ?thesis using loop_null [of n g enc rnd] by simp
  next
    case empty
    with mem show ?thesis using loop_empty [of n g enc rnd] by simp
  next
    case (below tks)
    with mem show ?thesis using loop_below [of n g enc tks rnd] by simp
  next
    case (step tks t rnd')
    note st = loop_step [OF step]
    show ?thesis
    proof (cases "c = enc")
      case True
      with step(1) show ?thesis by simp
    next
      case False
      with mem st have "c \<in> set (queried g (n - 1) (enc @ [t]) rnd')" by simp
      from "1.IH" [OF step(1) step(2) step(3) step(4) refl refl this]
      have ih: "take (length (enc @ [t])) c = enc @ [t]"
        "int (length c) < int (length (enc @ [t])) + (n - 1)" by simp_all
      from ih(1) have "take (length enc) (take (length (enc @ [t])) c) = take (length enc) (enc @ [t])"
        by simp
      then have "take (length enc) c = enc" by (simp add: min_def)
      with ih(2) show ?thesis by simp
    qed
  qed
qed

section \<open>Early stops and errors of TopPGenerator.run\<close>

text \<open>What \<^verbatim>\<open>run\<close> returns once the loop has ended without an error.\<close>

lemma run_after_loop:
  assumes "prompt \<noteq> []" and "0 < seq_len"
    and "encode (tp_word_processor g) prompt = Some encoded" and "encoded \<noteq> []"
    and "generate_loop g seq_len encoded rnd = Inr (final, rnd')"
    and "decode (tp_word_processor g) final = Some decoded" and "decoded \<noteq> []"
  shows "TopPGenerator_run g rnd seq_len prompt = Inr (decoded, rnd')"
  using assms by (simp add: TopPGenerator_run_def)

lemma run_after_loop_undecodable:
  assumes "prompt \<noteq> []" and "0 < seq_len"
    and "encode (tp_word_processor g) prompt = Some encoded" and "encoded \<noteq> []"
    and "generate_loop g seq_len encoded rnd = Inr (final, rnd')"
    and "decode (tp_word_processor g) final = None \<or>
         decode (tp_word_processor g) final = Some []"
  shows "TopPGenerator_run g rnd seq_len prompt = Inl (ValueError ''Couldn't decode text.'')"
  using assms by (auto simp add: TopPGenerator_run_def)

lemmas evaluate_sample =
  sample_def sorted_tokens_def token_key_def py_sorted_reverse_def choice_def
  float_add_eval round_half_even_def

lemma stopping_generator_queried:
  "queried stopping_generator 3 [0] id = [[0], [0, 1]]"
  by (simp add: queried.simps stopping_generator_def evaluate_sample)

lemma wordless_generator_queried:
  "queried wordless_generator 3 [0] id = [[0], [0, 1]]"
  "queried wordless_generator 3 [5] id = [[5]]"
  by (simp_all add: queried.simps wordless_generator_def stopping_generator_def evaluate_sample)

text \<open>
  Claim C5 as stated fails: after the empty distribution has ended the loop, \<^verbatim>\<open>run\<close>
  decodes the accumulated tokens and raises \<^verbatim>\<open>ValueError\<close> when the decoder yields
  nothing, here the empty text for \<open>[0, 1]\<close>.
\<close>

theorem top_p_stops_on_empty_distribution_counterexample:
  "TopPGenerator_run wordless_generator id 3 ''a'' = Inl (ValueError ''Couldn't decode text.'') \<and>
   ''a'' \<noteq> [] \<and> (0::int) < 3 \<and>
   encode (tp_word_processor wordless_generator) ''a'' = Some [0] \<and>
   queried wordless_generator 3 [0] id = [[0], [0, 1]] \<and>
   generate_next_token (tp_model wordless_generator) [0, 1] = Some [] \<and>
   decode (tp_word_processor wordless_generator) [0, 1] = Some []"
  by (simp add: wordless_generator_queried)
     (simp add: TopPGenerator_run_def generate_loop.simps wordless_generator_def
        stopping_generator_def evaluate_sample)

text \<open>
  Claim C5, amended. When the model returns the empty (non-null) distribution at a
  context it is asked about during \<^verbatim>\<open>TopPGenerator.run\<close>, the loop ends at that step
  without an error and with exactly the tokens accumulated so far: the encoded prompt
  extended by fewer tokens than \<^verbatim>\<open>seq_len\<close>. Provided the decoder yields a non-empty text
  for that sequence, \<^verbatim>\<open>run\<close> returns it; when the decoder yields \<^verbatim>\<open>None\<close> or the empty
  text, \<^verbatim>\<open>run\<close> raises \<^verbatim>\<open>ValueError\<close>.
\<close>

theorem top_p_stops_on_empty_distribution:
  assumes "prompt \<noteq> []" and "0 < seq_len"
    and "encode (tp_word_processor g) prompt = Some encoded" and "encoded \<noteq> []"
    and "c \<in> set (queried g seq_len encoded rnd)"
    and "generate_next_token (tp_model g) c = Some []"
  shows "\<exists>rnd'. generate_loop g seq_len encoded rnd = Inr (c, rnd') \<and>
           take (length encoded) c = encoded \<and>
           int (length c) < int (length encoded) + seq_len \<and>
           (\<forall>decoded. decode (tp_word_processor g) c = Some decoded \<and> decoded \<noteq> [] \<longrightarrow>
              TopPGenerator_run g rnd seq_len prompt = Inr (decoded, rnd')) \<and>
           (decode (tp_word_processor g) c = None \<or>
            decode (tp_word_processor g) c = Some [] \<longrightarrow>
              TopPGenerator_run g rnd seq_len prompt
                = Inl (ValueError ''Couldn't decode text.''))"
proof -
  from generate_loop_stops [OF assms(5) assms(6)]
  obtain rnd' where l: "generate_loop g seq_len encoded rnd = Inr (c, rnd')" by blast
  from queried_length [OF assms(5)]
  have "take (length encoded) c = encoded" "int (length c) < int (length encoded) + seq_len"
    by simp_all
  moreover have "\<forall>decoded. decode (tp_word_processor g) c = Some decoded \<and> decoded \<noteq> [] \<longrightarrow>
      TopPGenerator_run g rnd seq_len prompt = Inr (decoded, rnd')"
    using run_after_loop [OF assms(1-4) l] by blast
  moreover have "decode (tp_word_processor g) c = None \<or>
      decode (tp_word_processor g) c = Some [] \<longrightarrow>
      TopPGenerator_run g rnd seq_len prompt = Inl (ValueError ''Couldn't decode text.'')"
    using run_after_loop_undecodable [OF assms(1-4) l] by blast
  ultimately show ?thesis using l by blast
qed

theorem top_p_stops_on_empty_distribution_witness:
  "\<exists>rnd'. generate_loop stopping_generator 3 [0] id = Inr ([0, 1], rnd') \<and>
          TopPGenerator_run stopping_generator id 3 ''a'' = Inr (''A b.'', rnd')"
proof -
  have h: "''a'' \<noteq> []" "(0::int) < 3"
    "encode (tp_word_processor stopping_generator) ''a'' = Some [0]" "[0::int] \<noteq> []"
    "[0, 1] \<in> set (queried stopping_generator 3 [0] id)"
    "generate_next_token (tp_model stopping_generator) [0, 1] = Some []"
    by (simp_all add: stopping_generator_queried) (simp_all add: stopping_generator_def)
  have d: "decode (tp_word_processor stopping_generator) [0, 1] = Some ''A b.'' \<and> ''A b.'' \<noteq> []"
    by (simp add: stopping_generator_def)
  from top_p_stops_on_empty_distribution [OF h] d show ?thesis by blast
qed

text \<open>Adding a number that is not negative to a double that is not negative does not
  make the machine's sum smaller, so no running sum of probabilities exceeds the last
  one.\<close>

lemma foldl_float_add_grows:
  "is_double acc \<Longrightarrow> 0 \<le> acc \<Longrightarrow> \<forall>x \<in> set xs. 0 \<le> x \<Longrightarrow> acc \<le> foldl float_add acc xs"
proof (induction xs arbitrary: acc)
  case Nil
  then show ?case by simp
next
  case (Cons x xs)
  from Cons.prems have x: "0 \<le> x" and xs: "\<forall>y \<in> set xs. 0 \<le> y" by simp_all
  have d: "is_double (float_add acc x)"
    unfolding float_add_def by (rule round_double_is_double)
  from Cons.prems(2) x have n: "0 \<le> float_add acc x"
    unfolding float_add_def by (intro round_double_nonneg) simp
  from float_add_grows [OF Cons.prems(1,2) x] Cons.IH [OF d n xs]
  show ?case by simp
qed

lemma running_sum_le_total:
  "is_double acc \<Longrightarrow> 0 \<le> acc \<Longrightarrow> \<forall>pair \<in> set xs. 0 \<le> snd pair \<Longrightarrow>
     running_sum acc xs k \<le> running_sum acc xs (length xs)"
proof (induction xs arbitrary: acc k)
  case Nil
  then show ?case by (simp add: running_sum_def)
next
  case (Cons x xs)
  from Cons.prems have x: "0 \<le> snd x" and xs: "\<forall>pair \<in> set xs. 0 \<le> snd pair" by simp_all
  show ?case
  proof (cases k)
    case 0
    have "\<forall>y \<in> set (map snd (x # xs)). 0 \<le> y" using Cons.prems(3) by auto
    from foldl_float_add_grows [OF Cons.prems(1,2) this] 0
    show ?thesis by (simp add: running_sum_def)
  next
    case (Suc k')
    have d: "is_double (float_add acc (snd x))"
      unfolding float_add_def by (rule round_double_is_double)
    from Cons.prems(2) x have n: "0 \<le> float_add acc (snd x)"
      unfolding float_add_def by (intro round_double_nonneg) simp
    from Cons.IH [OF d n xs, of k'] Suc show ?thesis
      by (simp add: running_sum_Cons)
  qed
qed

lemma sample_below_total:
  assumes "\<forall>pair \<in> set tokens. 0 \<le> snd pair"
    and "running_sum 0 (sorted_tokens tokens) (length tokens) < p"
  shows "sample p tokens rnd = Inr None"
proof -
  have "set (sorted_tokens tokens) = set tokens"
    by (rule mset_eq_setD [OF mset_sorted_tokens])
  with assms(1) have "\<forall>pair \<in> set (sorted_tokens tokens). 0 \<le> snd pair" by simp
  from running_sum_le_total [OF is_double_0 _ this]
  have "running_sum 0 (sorted_tokens tokens) k
          \<le> running_sum 0 (sorted_tokens tokens) (length tokens)" for k
    by (simp add: length_sorted_tokens)
  with assms(2) have "running_sum 0 (sorted_tokens tokens) k < p" for k
    using le_less_trans by blast
  then show ?thesis by (simp add: sample_None)
qed

text \<open>
  Claim C9 as stated fails in two ways. The doubles \<open>0.7\<close> and \<open>0.3\<close> add up to less than
  the threshold \<open>1.0\<close>, yet the sum the code compares is the machine's, which is \<open>1.0\<close>,
  and a token is appended. And where the running sum does stay below the threshold and
  the loop ends, \<^verbatim>\<open>run\<close> still raises \<^verbatim>\<open>ValueError\<close> when the decoder yields nothing for
  the accumulated tokens.
\<close>

theorem top_p_stops_below_threshold_counterexample:
  "generate_next_token (tp_model unit_generator) [7] = Some unit_distribution \<and>
   unit_distribution \<noteq> [] \<and>
   list_all (\<lambda>pair. 0 \<le> snd pair) unit_distribution \<and>
   sum_list (map snd unit_distribution) < tp_p_value unit_generator \<and>
   generate_loop unit_generator 1 [7] (constant_draws 0) = Inr ([7, 0], constant_draws 0) \<and>
   queried wordless_generator 3 [5] id = [[5]] \<and>
   generate_next_token (tp_model wordless_generator) [5] = Some [(2, 1 / 4)] \<and>
   sum_list (map snd [(2 :: int, 1 / 4 :: real)]) < tp_p_value wordless_generator \<and>
   TopPGenerator_run wordless_generator id 3 ''b'' = Inl (ValueError ''Couldn't decode text.'')"
proof -
  have "generate_loop unit_generator 1 [7] (constant_draws 0) = Inr ([7, 0], constant_draws 0)"
    by (simp add: generate_loop.simps [of _ 1] generate_loop.simps [of _ 0] unit_generator_def
          unit_distribution_def sample_def sorted_tokens_def token_key_def
          py_sorted_reverse_def choice_def constant_draws_rest)
       (simp add: float_literals float_add_eval round_half_even_def constant_draws_def)
  moreover have "sum_list (map snd unit_distribution) < tp_p_value unit_generator"
    "list_all (\<lambda>pair. 0 \<le> snd pair) unit_distribution"
    by (simp_all add: unit_distribution_def unit_generator_def float_literals)
  moreover have "TopPGenerator_run wordless_generator id 3 ''b''
      = Inl (ValueError ''Couldn't decode text.'')"
    by (simp add: TopPGenerator_run_def generate_loop.simps wordless_generator_def
        stopping_generator_def evaluate_sample)
  ultimately show ?thesis
    by (simp add: wordless_generator_queried)
       (simp add: unit_generator_def unit_distribution_def wordless_generator_def
          stopping_generator_def)
qed

text \<open>
  Claim C9, amended. When the model returns, at a context it is asked about during
  \<^verbatim>\<open>TopPGenerator.run\<close>, a non-empty distribution of probabilities that are not negative
  and whose sum, accumulated as the code accumulates it (floating-point addition, pair
  after pair in sorted order), is strictly below the threshold, no token is selected
  whatever the random draws and the loop ends at that step without an error and with
  the tokens accumulated so far, as for the empty distribution. Provided the decoder
  yields a non-empty text for that sequence, \<^verbatim>\<open>run\<close> returns it; when the decoder yields
  \<^verbatim>\<open>None\<close> or the empty text, \<^verbatim>\<open>run\<close> raises \<^verbatim>\<open>ValueError\<close>.
\<close>

theorem top_p_stops_below_threshold:
  assumes "prompt \<noteq> []" and "0 < seq_len"
    and "encode (tp_word_processor g) prompt = Some encoded" and "encoded \<noteq> []"
    and "c \<in> set (queried g seq_len encoded rnd)"
    and "generate_next_token (tp_model g) c = Some tokens"
    and "tokens \<noteq> []"
    and "\<forall>pair \<in> set tokens. 0 \<le> snd pair"
    and "running_sum 0 (sorted_tokens tokens) (length tokens) < tp_p_value g"
  shows "sample (tp_p_value g) tokens rnd0 = Inr None \<and>
         (\<exists>rnd'. generate_loop g seq_len encoded rnd = Inr (c, rnd') \<and>
            take (length encoded) c = encoded \<and>
            int (length c) < int (length encoded) + seq_len \<and>
            (\<forall>decoded. decode (tp_word_processor g) c = Some decoded \<and> decoded \<noteq> [] \<longrightarrow>
               TopPGenerator_run g rnd seq_len prompt = Inr (decoded, rnd')) \<and>
            (decode (tp_word_processor g) c = None \<or>
             decode (tp_word_processor g) c = Some [] \<longrightarrow>
               TopPGenerator_run g rnd seq_len prompt
                 = Inl (ValueError ''Couldn't decode text.'')))"
proof -
  have s: "sample (tp_p_value g) tokens r = Inr None" for r
    by (rule sample_below_total [OF assms(8) assms(9)])
  then have "tokens = [] \<or> sample (tp_p_value g) tokens rnd0 = Inr None" by simp
  from generate_loop_stops [OF assms(5) assms(6) this]
  obtain rnd' where l: "generate_loop g seq_len encoded rnd = Inr (c, rnd')" by blast
  from queried_length [OF assms(5)]
  have "take (length encoded) c = encoded" "int (length c) < int (length encoded) + seq_len"
    by simp_all
  moreover have "\<forall>decoded. decode (tp_word_processor g) c = Some decoded \<and> decoded \<noteq> [] \<longrightarrow>
      TopPGenerator_run g rnd seq_len prompt = Inr (decoded, rnd')"
    using run_after_loop [OF assms(1-4) l] by blast
  moreover have "decode (tp_word_processor g) c = None \<or>
      decode (tp_word_processor g) c = Some [] \<longrightarrow>
      TopPGenerator_run g rnd seq_len prompt = Inl (ValueError ''Couldn't decode text.'')"
    using run_after_loop_undecodable [OF assms(1-4) l] by blast
  ultimately show ?thesis using l s by blast
qed

theorem top_p_stops_below_threshold_witness:
  "sample (tp_p_value stopping_generator) [(2, 1 / 4)] id = Inr None \<and>
   generate_loop stopping_generator 3 [5] id = Inr ([5], id) \<and>
   TopPGenerator_run stopping_generator id 3 ''b'' = Inr (''A b.'', id)"
proof -
  have q: "queried stopping_generator 3 [5] id = [[5]]"
    by (simp add: queried.simps stopping_generator_def evaluate_sample)
  have r: "running_sum 0 (sorted_tokens [(2::int, 1 / 4 :: real)])
             (length [(2::int, 1 / 4 :: real)]) = 1 / 4"
    by (simp add: running_sum_def sorted_tokens_def token_key_def py_sorted_reverse_def
        float_add_eval round_half_even_def)
  have h: "''b'' \<noteq> []" "(0::int) < 3"
    "encode (tp_word_processor stopping_generator) ''b'' = Some [5]" "[5::int] \<noteq> []"
    "[5] \<in> set (queried stopping_generator 3 [5] id)"
    "generate_next_token (tp_model stopping_generator) [5] = Some [(2, 1 / 4)]"
    "[(2::int, 1 / 4 :: real)] \<noteq> []"
    "\<forall>pair \<in> set [(2::int, 1 / 4 :: real)]. 0 \<le> snd pair"
    "running_sum 0 (sorted_tokens [(2::int, 1 / 4 :: real)])
       (length [(2::int, 1 / 4 :: real)]) < tp_p_value stopping_generator"
    by (simp_all only: q r) (simp_all add: stopping_generator_def)
  have d: "decode (tp_word_processor stopping_generator) [5] = Some ''A b.'' \<and> ''A b.'' \<noteq> []"
    by (simp add: stopping_generator_def)
  have l: "generate_loop stopping_generator 3 [5] id = Inr ([5], id)"
    by (simp add: generate_loop.simps stopping_generator_def evaluate_sample)
  from top_p_stops_below_threshold [OF h, of id] l d show ?thesis by auto
qed

text \<open>
  Claim C6 as stated fails: \<^verbatim>\<open>run\<close> also raises \<^verbatim>\<open>ValueError\<close> when decoding the final
  sequence fails, although the prompt is not empty, \<^verbatim>\<open>seq_len\<close> is positive, the encoded
  prompt is not empty and the model returns a (here empty) distribution at the only
  context it is asked about.
\<close>

theorem top_p_run_raises_counterexample:
  "TopPGenerator_run undecodable_generator id 1 ''a'' = Inl (ValueError ''Couldn't decode text.'') \<and>
   ''a'' \<noteq> [] \<and> (0::int) < 1 \<and>
   encode (tp_word_processor undecodable_generator) ''a'' = Some [0] \<and> [0::int] \<noteq> [] \<and>
   queried undecodable_generator 1 [0] id = [[0]] \<and>
   generate_next_token (tp_model undecodable_generator) [0] = Some []"
  by (simp add: TopPGenerator_run_def generate_loop.simps queried.simps
      undecodable_generator_def)

text \<open>
  Claim C6, amended. \<^verbatim>\<open>TopPGenerator.run\<close> raises exactly when the prompt is empty, the
  requested number of tokens is not positive, encoding the prompt yields \<^verbatim>\<open>None\<close> or the
  empty sequence, the model returns \<^verbatim>\<open>None\<close> at a context it is asked about, or decoding
  the final sequence yields \<^verbatim>\<open>None\<close> or the empty text; whatever it raises is a
  \<^verbatim>\<open>ValueError\<close>. An empty distribution is none of these cases.
\<close>

theorem top_p_run_raises:
  "((\<exists>e. TopPGenerator_run g rnd seq_len prompt = Inl e) \<longleftrightarrow>
      prompt = [] \<or> seq_len \<le> 0 \<or>
      encode (tp_word_processor g) prompt = None \<or>
      encode (tp_word_processor g) prompt = Some [] \<or>
      (\<exists>encoded. encode (tp_word_processor g) prompt = Some encoded \<and>
         ((\<exists>c \<in> set (queried g seq_len encoded rnd).
             generate_next_token (tp_model g) c = None) \<or>
          (\<exists>final rnd'. generate_loop g seq_len encoded rnd = Inr (final, rnd') \<and>
             (decode (tp_word_processor g) final = None \<or>
              decode (tp_word_processor g) final = Some []))))) \<and>
   (\<forall>e. TopPGenerator_run g rnd seq_len prompt = Inl e \<longrightarrow> (\<exists>msg. e = ValueError msg))"
proof (cases "prompt \<noteq> [] \<and> seq_len > 0")
  case False
  then show ?thesis by (auto simp add: TopPGenerator_run_def)
next
  case ok: True
  show ?thesis
  proof (cases "encode (tp_word_processor g) prompt")
    case None
    with ok show ?thesis by (simp add: TopPGenerator_run_def)
  next
    case (Some encoded)
    show ?thesis
    proof (cases "encoded = []")
      case True
      with ok Some show ?thesis by (simp add: TopPGenerator_run_def)
    next
      case ne: False
      show ?thesis
      proof (cases "generate_loop g seq_len encoded rnd")
        case (Inl e)
        then have "\<exists>c \<in> set (queried g seq_len encoded rnd).
            generate_next_token (tp_model g) c = None"
          and "e = ValueError ''Model returned None instead of generated tokens.''"
          by (simp_all add: generate_loop_error)
        with ok Some ne Inl show ?thesis by (simp add: TopPGenerator_run_def)
      next
        case (Inr r)
        obtain final rnd' where r: "r = (final, rnd')" by (cases r)
        have no: "\<not> (\<exists>c \<in> set (queried g seq_len encoded rnd).
            generate_next_token (tp_model g) c = None)"
          using Inr generate_loop_error [of g seq_len encoded rnd] by auto
        show ?thesis
        proof (cases "decode (tp_word_processor g) final")
          case None
          with ok Some ne Inr r show ?thesis by (simp add: TopPGenerator_run_def)
        next
          case dec: (Some decoded)
          with ok Some ne Inr r no show ?thesis
            by (cases "decoded = []") (simp_all add: TopPGenerator_run_def)
        qed
      qed
    qed
  qed
qed

theorem top_p_run_raises_witness:
  "(\<exists>e. TopPGenerator_run stopping_generator id 3 ''a'' = Inl e) = False \<and>
   (\<exists>e. TopPGenerator_run undecodable_generator id 1 ''a'' = Inl e) = True"
proof -
  have a: "TopPGenerator_run undecodable_generator id 1 ''a''
             = Inl (ValueError ''Couldn't decode text.'')"
    by (simp add: TopPGenerator_run_def generate_loop.simps undecodable_generator_def)
  have b: "generate_loop stopping_generator 3 [0] id = Inr ([0, 1], \<lambda>k. Suc k)"
    by (simp add: generate_loop.simps stopping_generator_def evaluate_sample)
  have c: "\<not> (''a'' = [] \<or> (3::int) \<le> 0 \<or>
      encode (tp_word_processor stopping_generator) ''a'' = None \<or>
      encode (tp_word_processor stopping_generator) ''a'' = Some [] \<or>
      (\<exists>encoded. encode (tp_word_processor stopping_generator) ''a'' = Some encoded \<and>
         ((\<exists>c \<in> set (queried stopping_generator 3 encoded id).
             generate_next_token (tp_model stopping_generator) c = None) \<or>
          (\<exists>final rnd'. generate_loop stopping_generator 3 encoded id = Inr (final, rnd') \<and>
             (decode (tp_word_processor stopping_generator) final = None \<or>
              decode (tp_word_processor stopping_generator) final = Some [])))))"
    by (simp add: b stopping_generator_queried) (simp add: stopping_generator_def)
  from top_p_run_raises [of stopping_generator id 3 "''a''"] c a show ?thesis by simp
qed

section \<open>Perplexity\<close>

lemma py_index_in_range:
  "0 \<le> i \<Longrightarrow> i < int (length xs) \<Longrightarrow> py_index xs i = Inr (xs ! nat i)"
  by (simp add: py_index_def)

lemma py_slice_context:
  assumes "1 \<le> n" and "n - 1 \<le> i" and "i < int (length xs)"
  shows "py_slice xs (i - n + 1) i = context_at xs n i"
proof -
  have a: "py_bound xs (i - n + 1) = nat (i - n + 1)" and b: "py_bound xs i = nat i"
    using assms by (simp_all add: py_bound_def min_def)
  have "nat i - nat (i - n + 1) = nat (n - 1)" using assms by arith
  with a b show ?thesis by (simp add: py_slice_def context_at_def)
qed

lemma set_py_range: "set (py_range a b) = {i. a \<le> i \<and> i < b}"
  by (auto simp add: py_range_def)

text \<open>One pass of the scoring loop at a position of the encoded text.\<close>

lemma perplexity_step:
  assumes "1 \<le> n" and "n - 1 \<le> i" and "i < int (length enc)"
  shows "perplexity_loop m enc n (i # rest) acc =
     (case generate_next_token m (context_at enc n i) of
        None \<Rightarrow> Inl (ValueError ''Couldn't generate tokens.'')
      | Some d \<Rightarrow>
          if d = [] then Inl (ValueError ''Couldn't generate tokens.'')
          else
            (case map_of d (enc ! nat i) of
               None \<Rightarrow> perplexity_loop m enc n rest acc
             | Some pr \<Rightarrow>
                 if pr = 0 then perplexity_loop m enc n rest acc
                 else if 0 < pr then perplexity_loop m enc n rest (acc + ln pr)
                 else Inl (ValueError ''math domain error'')))"
proof -
  from assms have "0 \<le> i" by simp
  then have ix: "py_index enc i = Inr (enc ! nat i)"
    using assms(3) by (rule py_index_in_range)
  show ?thesis
    by (simp add: ix py_slice_context [OF assms] py_log_def
        split: option.splits)
qed

lemma in_text_Cons:
  "in_text enc n (i # rest) \<longleftrightarrow> n - 1 \<le> i \<and> i < int (length enc) \<and> in_text enc n rest"
  by (simp add: in_text_def)

lemma in_text_py_range: "in_text enc n (py_range (n - 1) (int (length enc)))"
  by (simp add: in_text_def list_all_iff set_py_range)

text \<open>Whatever the loop returns is the starting sum plus the contributions of the
  positions it visited.\<close>

lemma perplexity_loop_sum:
  "1 \<le> n \<Longrightarrow> in_text enc n indices \<Longrightarrow> perplexity_loop m enc n indices acc = Inr s \<Longrightarrow>
     s = acc + sum_list (map (log_contribution m enc n) indices)"
proof (induction indices arbitrary: acc)
  case Nil
  then show ?case by simp
next
  case (Cons i rest)
  from Cons.prems(2) have r: "n - 1 \<le> i" "i < int (length enc)" "in_text enc n rest"
    by (simp_all add: in_text_Cons)
  note step = perplexity_step [OF Cons.prems(1) r(1) r(2), of m rest acc]
  note ih = Cons.IH [OF Cons.prems(1) r(3)]
  show ?case
  proof (cases "generate_next_token m (context_at enc n i)")
    case None
    with step Cons.prems(3) show ?thesis by simp
  next
    case (Some d)
    show ?thesis
    proof (cases "map_of d (enc ! nat i)")
      case None
      with Some step Cons.prems(3) have "perplexity_loop m enc n rest acc = Inr s"
        by (simp split: if_splits)
      from ih [OF this] Some None show ?thesis by (simp add: log_contribution_def)
    next
      case pr: (Some pr)
      show ?thesis
      proof (cases "pr = 0")
        case True
        with Some pr step Cons.prems(3) have "perplexity_loop m enc n rest acc = Inr s"
          by (simp split: if_splits)
        from ih [OF this] Some pr True show ?thesis by (simp add: log_contribution_def)
      next
        case False
        with Some pr step Cons.prems(3)
        have "perplexity_loop m enc n rest (acc + ln pr) = Inr s"
          by (simp split: if_splits)
        from ih [OF this] Some pr False show ?thesis by (simp add: log_contribution_def)
      qed
    qed
  qed
qed

text \<open>The loop raises nothing but the two \<^verbatim>\<open>ValueError\<close>s of its body.\<close>

lemma perplexity_loop_error:
  "1 \<le> n \<Longrightarrow> in_text enc n indices \<Longrightarrow> perplexity_loop m enc n indices acc = Inl e \<Longrightarrow>
     e = ValueError ''Couldn't generate tokens.'' \<or> e = ValueError ''math domain error''"
proof (induction indices arbitrary: acc)
  case Nil
  then show ?case by simp
next
  case (Cons i rest)
  from Cons.prems(2) have r: "n - 1 \<le> i" "i < int (length enc)" "in_text enc n rest"
    by (simp_all add: in_text_Cons)
  note step = perplexity_step [OF Cons.prems(1) r(1) r(2), of m rest acc]
  note ih = Cons.IH [OF Cons.prems(1) r(3)]
  from step Cons.prems(3) show ?case
    by (auto split: option.splits if_splits dest: ih)
qed

text \<open>Where every visited position is scorable, the loop returns.\<close>

lemma perplexity_loop_returns:
  "1 \<le> n \<Longrightarrow> in_text enc n indices \<Longrightarrow> list_all (scorable m enc n) indices \<Longrightarrow>
     \<exists>s. perplexity_loop m enc n indices acc = Inr s"
proof (induction indices arbitrary: acc)
  case Nil
  then show ?case by simp
next
  case (Cons i rest)
  from Cons.prems(2) have r: "n - 1 \<le> i" "i < int (length enc)" "in_text enc n rest"
    by (simp_all add: in_text_Cons)
  from Cons.prems(3) have sc: "scorable m enc n i" and scr: "list_all (scorable m enc n) rest"
    by simp_all
  note step = perplexity_step [OF Cons.prems(1) r(1) r(2), of m rest acc]
  note ih = Cons.IH [OF Cons.prems(1) r(3) scr]
  from sc obtain d where d: "generate_next_token m (context_at enc n i) = Some d" "d \<noteq> []"
    "list_all (\<lambda>pair. 0 \<le> snd pair) d"
    by (auto simp add: scorable_def split: option.splits)
  show ?case
  proof (cases "map_of d (enc ! nat i)")
    case None
    with d step ih [of acc] show ?thesis by simp
  next
    case (Some pr)
    then have "(enc ! nat i, pr) \<in> set d" by (rule map_of_SomeD)
    with d(3) have "0 \<le> pr" by (auto simp add: list_all_iff)
    with d Some step ih [of acc] ih [of "acc + ln pr"] show ?thesis by auto
  qed
qed

text \<open>A visited position where the model answers \<^verbatim>\<open>None\<close> or the empty distribution
  makes the loop raise.\<close>

lemma perplexity_loop_raises:
  "1 \<le> n \<Longrightarrow> in_text enc n indices \<Longrightarrow> i \<in> set indices \<Longrightarrow>
   generate_next_token m (context_at enc n i) = None \<or>
   generate_next_token m (context_at enc n i) = Some [] \<Longrightarrow>
     \<exists>e. perplexity_loop m enc n indices acc = Inl e"
proof (induction indices arbitrary: acc)
  case Nil
  then show ?case by simp
next
  case (Cons j rest)
  from Cons.prems(2) have r: "n - 1 \<le> j" "j < int (length enc)" "in_text enc n rest"
    by (simp_all add: in_text_Cons)
  note step = perplexity_step [OF Cons.prems(1) r(1) r(2), of m rest acc]
  show ?case
  proof (cases "i = j")
    case True
    with step Cons.prems(4) show ?thesis by auto
  next
    case False
    with Cons.prems(3) have "i \<in> set rest" by simp
    note ih = Cons.IH [OF Cons.prems(1) r(3) this Cons.prems(4)]
    from step ih [of acc] ih [of "acc + ln pr" for pr] show ?thesis
      by (auto split: option.splits)
  qed
qed

text \<open>
  Claim C3 as stated fails: for a text whose re-encoding \<open>[0, 1, 1]\<close> is longer than the
  n-gram size \<open>2\<close>, under a model that gives every observed token the probability \<open>1\<close>,
  the log-likelihood sum is \<open>0\<close> and \<^verbatim>\<open>_calculate_perplexity\<close> raises instead of returning
  \<open>exp (- 0 / (3 - 2))\<close>.
\<close>

theorem perplexity_formula_counterexample:
  "calculate_perplexity certain_checker ''A b b.''
     = Inl (ValueError ''Sum of token probabilities is 0.'') \<and>
   ''A b b.'' \<noteq> [] \<and>
   encode (qc_word_processor certain_checker) ''A b b.'' = Some [0, 1, 1] \<and>
   get_n_gram_size (qc_language_model certain_checker) = 2 \<and>
   2 < int (length [0, 1, 1 :: int]) \<and>
   log_sum (qc_language_model certain_checker) [0, 1, 1] 2 = 0"
  by (simp add: calculate_perplexity_def certain_checker_def py_range_def py_index_def
      py_slice_def py_bound_def py_log_def log_sum_def log_contribution_def context_at_def
      upto.simps)

text \<open>
  Claim C3, amended. For a non-empty generated text whose re-encoding is longer than the
  model's n-gram size \<open>n \<ge> 1\<close>, when the model answers every context of the text with a
  non-empty distribution without negative probabilities and the log-likelihood sum \<open>S\<close>
  is not zero, \<^verbatim>\<open>_calculate_perplexity\<close> returns \<open>exp (- S / (L - n))\<close>, where \<open>L\<close> is the
  encoded length and \<open>S\<close> sums, over the positions \<open>i\<close> from \<open>n - 1\<close> to \<open>L - 1\<close>, the natural
  logarithm of the probability that the distribution at the \<open>n - 1\<close> tokens before \<open>i\<close>
  gives to the token at \<open>i\<close>, zero and missing probabilities contributing nothing.
\<close>

theorem perplexity_formula:
  assumes "generated_text \<noteq> []"
    and "encode (qc_word_processor qc) generated_text = Some encoded"
    and "n = get_n_gram_size (qc_language_model qc)"
    and "1 \<le> n" and "n < int (length encoded)"
    and "list_all (scorable (qc_language_model qc) encoded n)
           (py_range (n - 1) (int (length encoded)))"
    and "log_sum (qc_language_model qc) encoded n \<noteq> 0"
  shows "calculate_perplexity qc generated_text =
           Inr (exp (- log_sum (qc_language_model qc) encoded n
                       / real_of_int (int (length encoded) - n)))"
proof -
  let ?m = "qc_language_model qc"
  let ?r = "py_range (n - 1) (int (length encoded))"
  from perplexity_loop_returns [OF assms(4) in_text_py_range assms(6), of 0]
  obtain s where s: "perplexity_loop ?m encoded n ?r 0 = Inr s" by blast
  from perplexity_loop_sum [OF assms(4) in_text_py_range s]
  have eq: "s = log_sum ?m encoded n" by (simp add: log_sum_def py_range_def)
  from assms(4,5) have ne: "encoded \<noteq> []" by auto
  from assms(5) have d: "int (length encoded) - n \<noteq> 0" by simp
  have "calculate_perplexity qc generated_text
          = Inr (exp (s / real_of_int (- (int (length encoded) - n))))"
    using assms(1,2,7) ne d s eq assms(3) [symmetric]
    by (simp add: calculate_perplexity_def)
  also have "s / real_of_int (- (int (length encoded) - n))
          = - log_sum ?m encoded n / real_of_int (int (length encoded) - n)"
    by (simp only: eq of_int_minus minus_divide_right [symmetric] minus_divide_left)
  finally show ?thesis .
qed

lemma halving_encode:
  "encode (qc_word_processor halving_checker) ''A b b.'' = Some [0, 1, 1]"
  "get_n_gram_size (qc_language_model halving_checker) = 2"
  by (simp_all add: halving_checker_def halving_model_def)

lemma halving_log_sum: "log_sum (qc_language_model halving_checker) [0, 1, 1] 2 = ln (1 / 2)"
  by (simp add: halving_checker_def halving_model_def log_sum_def log_contribution_def
      context_at_def upto.simps)

theorem perplexity_formula_witness:
  "calculate_perplexity halving_checker ''A b b.'' = Inr (exp (- ln (1 / 2) / 1))"
proof -
  have sc: "list_all (scorable (qc_language_model halving_checker) [0, 1, 1] 2)
              (py_range (2 - 1) (int (length [0, 1, 1 :: int])))"
    by (simp add: halving_checker_def halving_model_def scorable_def context_at_def
        py_range_def upto.simps)
  have nz: "log_sum (qc_language_model halving_checker) [0, 1, 1] 2 \<noteq> 0"
    by (simp add: halving_log_sum)
  have h: "''A b b.'' \<noteq> []" "(1::int) \<le> 2" "2 < int (length [0, 1, 1 :: int])"
    by simp_all
  from perplexity_formula [OF h(1) halving_encode(1) halving_encode(2) [symmetric] h(2) h(3) sc nz]
  show ?thesis by (simp add: halving_log_sum)
qed

text \<open>
  Claim C7. \<^verbatim>\<open>_calculate_perplexity\<close> raises \<^verbatim>\<open>ValueError\<close> and returns no value when the
  generated text is empty, when re-encoding it yields \<^verbatim>\<open>None\<close> or the empty sequence, and
  whenever the log-sum its loop has accumulated is exactly zero. The same holds when the
  log-likelihood sum of the formula is zero.
\<close>

theorem perplexity_raises_on_zero_sum:
  "(generated_text = [] \<longrightarrow>
      calculate_perplexity qc generated_text = Inl (ValueError ''Inappropriate input.'')) \<and>
   (generated_text \<noteq> [] \<and>
      (encode (qc_word_processor qc) generated_text = None \<or>
       encode (qc_word_processor qc) generated_text = Some []) \<longrightarrow>
      calculate_perplexity qc generated_text = Inl (ValueError ''Couldn't encode prompt.'')) \<and>
   (\<forall>encoded. generated_text \<noteq> [] \<and> encoded \<noteq> [] \<and>
      encode (qc_word_processor qc) generated_text = Some encoded \<and>
      perplexity_loop (qc_language_model qc) encoded (get_n_gram_size (qc_language_model qc))
        (py_range (get_n_gram_size (qc_language_model qc) - 1) (int (length encoded))) 0
        = Inr 0 \<longrightarrow>
      calculate_perplexity qc generated_text
        = Inl (ValueError ''Sum of token probabilities is 0.'')) \<and>
   (\<forall>encoded. encode (qc_word_processor qc) generated_text = Some encoded \<and>
      1 \<le> get_n_gram_size (qc_language_model qc) \<and>
      log_sum (qc_language_model qc) encoded (get_n_gram_size (qc_language_model qc)) = 0 \<longrightarrow>
      (\<exists>msg. calculate_perplexity qc generated_text = Inl (ValueError msg)))"
proof (intro conjI allI impI)
  show "generated_text = [] \<Longrightarrow>
      calculate_perplexity qc generated_text = Inl (ValueError ''Inappropriate input.'')"
    by (simp add: calculate_perplexity_def)
  show "generated_text \<noteq> [] \<and>
      (encode (qc_word_processor qc) generated_text = None \<or>
       encode (qc_word_processor qc) generated_text = Some []) \<Longrightarrow>
      calculate_perplexity qc generated_text = Inl (ValueError ''Couldn't encode prompt.'')"
    by (auto simp add: calculate_perplexity_def)
  show "generated_text \<noteq> [] \<and> encoded \<noteq> [] \<and>
      encode (qc_word_processor qc) generated_text = Some encoded \<and>
      perplexity_loop (qc_language_model qc) encoded (get_n_gram_size (qc_language_model qc))
        (py_range (get_n_gram_size (qc_language_model qc) - 1) (int (length encoded))) 0
        = Inr 0 \<Longrightarrow>
      calculate_perplexity qc generated_text
        = Inl (ValueError ''Sum of token probabilities is 0.'')" for encoded
    by (simp add: calculate_perplexity_def)
next
  fix encoded :: "int list"
  let ?m = "qc_language_model qc"
  let ?n = "get_n_gram_size ?m"
  let ?r = "py_range (?n - 1) (int (length encoded))"
  assume a: "encode (qc_word_processor qc) generated_text = Some encoded \<and> 1 \<le> ?n \<and>
      log_sum ?m encoded ?n = 0"
  show "\<exists>msg. calculate_perplexity qc generated_text = Inl (ValueError msg)"
  proof (cases "generated_text = [] \<or> encoded = []")
    case True
    with a show ?thesis by (auto simp add: calculate_perplexity_def)
  next
    case False
    show ?thesis
    proof (cases "perplexity_loop ?m encoded ?n ?r 0")
      case (Inl e)
      with a perplexity_loop_error [OF _ in_text_py_range Inl]
      have "e = ValueError ''Couldn't generate tokens.'' \<or> e = ValueError ''math domain error''"
        by simp
      with a False Inl show ?thesis by (auto simp add: calculate_perplexity_def)
    next
      case (Inr s)
      with a perplexity_loop_sum [OF _ in_text_py_range Inr]
      have "s = 0" by (simp add: log_sum_def py_range_def)
      with a False Inr show ?thesis by (simp add: calculate_perplexity_def)
    qed
  qed
qed

theorem perplexity_raises_on_zero_sum_witness:
  "calculate_perplexity certain_checker ''A b b.''
     = Inl (ValueError ''Sum of token probabilities is 0.'') \<and>
   calculate_perplexity certain_checker [] = Inl (ValueError ''Inappropriate input.'')"
proof -
  have l: "''A b b.'' \<noteq> [] \<and> [0, 1, 1 :: int] \<noteq> [] \<and>
     encode (qc_word_processor certain_checker) ''A b b.'' = Some [0, 1, 1] \<and>
     perplexity_loop (qc_language_model certain_checker) [0, 1, 1]
       (get_n_gram_size (qc_language_model certain_checker))
       (py_range (get_n_gram_size (qc_language_model certain_checker) - 1)
          (int (length [0, 1, 1 :: int]))) 0 = Inr 0"
    by (simp add: certain_checker_def py_range_def py_index_def py_slice_def py_bound_def
        py_log_def upto.simps)
  from perplexity_raises_on_zero_sum [of "''A b b.''" certain_checker] l
  have a: "calculate_perplexity certain_checker ''A b b.''
     = Inl (ValueError ''Sum of token probabilities is 0.'')" by blast
  from perplexity_raises_on_zero_sum [of "[]" certain_checker]
  have b: "calculate_perplexity certain_checker [] = Inl (ValueError ''Inappropriate input.'')"
    by blast
  from a b show ?thesis by simp
qed

text \<open>
  Claim C10. When the model returns the empty (non-null) distribution, or \<^verbatim>\<open>None\<close>, for
  the context \<^verbatim>\<open>encoded[i - n + 1 : i]\<close> of a position \<open>i\<close> the scoring loop visits,
  \<^verbatim>\<open>_calculate_perplexity\<close> raises \<^verbatim>\<open>ValueError\<close>: the one of that check, unless
  \<^verbatim>\<open>math.log\<close> has raised its own on a negative probability at an earlier position.
\<close>

theorem perplexity_raises_on_empty_distribution:
  assumes "generated_text \<noteq> []"
    and "encode (qc_word_processor qc) generated_text = Some encoded"
    and "n = get_n_gram_size (qc_language_model qc)"
    and "1 \<le> n" and "n - 1 \<le> i" and "i < int (length encoded)"
    and "generate_next_token (qc_language_model qc) (py_slice encoded (i - n + 1) i) = None \<or>
         generate_next_token (qc_language_model qc) (py_slice encoded (i - n + 1) i) = Some []"
  shows "calculate_perplexity qc generated_text = Inl (ValueError ''Couldn't generate tokens.'') \<or>
         calculate_perplexity qc generated_text = Inl (ValueError ''math domain error'')"
proof -
  let ?m = "qc_language_model qc"
  let ?r = "py_range (n - 1) (int (length encoded))"
  from assms(5,6) have mem: "i \<in> set ?r" by (simp add: set_py_range)
  from assms(7) have bad: "generate_next_token ?m (context_at encoded n i) = None \<or>
      generate_next_token ?m (context_at encoded n i) = Some []"
    by (simp add: py_slice_context [OF assms(4,5,6)])
  from perplexity_loop_raises [OF assms(4) in_text_py_range mem bad, of 0]
  obtain e where e: "perplexity_loop ?m encoded n ?r 0 = Inl e" by blast
  from perplexity_loop_error [OF assms(4) in_text_py_range e]
  have "e = ValueError ''Couldn't generate tokens.'' \<or> e = ValueError ''math domain error''" .
  moreover from assms(4,5,6) have "encoded \<noteq> []" by auto
  ultimately show ?thesis
    using assms(1,2) e assms(3) [symmetric] by (auto simp add: calculate_perplexity_def)
qed

theorem perplexity_raises_on_empty_distribution_witness:
  "generate_next_token (qc_language_model halving_checker) (py_slice [0, 1, 5, 1] (3 - 2 + 1) 3)
     = Some [] \<and>
   calculate_perplexity halving_checker ''long'' = Inl (ValueError ''Couldn't generate tokens.'')"
proof -
  have h: "''long'' \<noteq> []"
    "encode (qc_word_processor halving_checker) ''long'' = Some [0, 1, 5, 1]"
    "2 = get_n_gram_size (qc_language_model halving_checker)"
    "(1::int) \<le> 2" "(2::int) - 1 \<le> 3" "3 < int (length [0, 1, 5, 1 :: int])"
    by (simp_all add: halving_checker_def halving_model_def)
  have e: "generate_next_token (qc_language_model halving_checker)
             (py_slice [0, 1, 5, 1] (3 - 2 + 1) 3) = Some []"
    by (simp add: halving_checker_def halving_model_def py_slice_def py_bound_def)
  have ne: "calculate_perplexity halving_checker ''long'' \<noteq> Inl (ValueError ''math domain error'')"
    by (simp add: calculate_perplexity_def halving_checker_def halving_model_def py_range_def
        py_index_def py_slice_def py_bound_def py_log_def upto.simps)
  from perplexity_raises_on_empty_distribution [OF h disjI2 [OF e]] ne e show ?thesis by simp
qed

section \<open>QualityChecker.run\<close>

lemma py_sorted_sorted: "sorted (map key (py_sorted key xs))"
  by (simp add: py_sorted_def)

text \<open>
  Claim C4. The list \<^verbatim>\<open>QualityChecker.run\<close> returns is sorted ascending by the key
  (perplexity, generator type): for all positions \<open>i < j\<close> of the result the key at \<open>i\<close>
  is at most the key at \<open>j\<close>, and so is the perplexity.
\<close>

theorem quality_checker_sorted:
  assumes "QualityChecker_run qc st seq_len prompt = Inr (result, st')"
  shows "sorted (map dto_key result) \<and>
         (\<forall>i j. i < j \<and> j < length result \<longrightarrow>
            (get_perplexity (result ! i), get_type (result ! i))
              \<le> (get_perplexity (result ! j), get_type (result ! j)) \<and>
            get_perplexity (result ! i) \<le> get_perplexity (result ! j))"
proof -
  from assms obtain results where "result = py_sorted dto_key results"
    by (auto simp add: QualityChecker_run_def split: if_splits sum.splits)
  then have s: "sorted (map dto_key result)" by (simp add: py_sorted_sorted)
  note s
  moreover have "\<forall>i j. i < j \<and> j < length result \<longrightarrow>
      (get_perplexity (result ! i), get_type (result ! i))
        \<le> (get_perplexity (result ! j), get_type (result ! j)) \<and>
      get_perplexity (result ! i) \<le> get_perplexity (result ! j)"
  proof (intro allI impI)
    fix i j assume ij: "i < j \<and> j < length result"
    then have "i \<le> j" "j < length (map dto_key result)" by simp_all
    with s have "map dto_key result ! i \<le> map dto_key result ! j"
      by (rule sorted_nth_mono)
    with ij have k: "dto_key (result ! i) \<le> dto_key (result ! j)" by simp
    then have "get_perplexity (result ! i) \<le> get_perplexity (result ! j)"
      by (auto simp add: dto_key_def)
    with k show "(get_perplexity (result ! i), get_type (result ! i))
        \<le> (get_perplexity (result ! j), get_type (result ! j)) \<and>
      get_perplexity (result ! i) \<le> get_perplexity (result ! j)"
      by (simp add: dto_key_def)
  qed
  ultimately show ?thesis by (rule conjI)
qed

lemma halving_perplexity:
  "calculate_perplexity halving_checker ''A b b.'' = Inr (exp (- ln (1 / 2)))"
  by (simp add: calculate_perplexity_def halving_checker_def halving_model_def py_range_def
      py_index_def py_slice_def py_bound_def py_log_def upto.simps)

theorem quality_checker_sorted_witness:
  "QualityChecker_run halving_checker () 1 ''a'' =
     Inr ([\<lparr>get_text = ''A b b.'', get_perplexity = exp (- ln (1 / 2)), get_type = 0\<rparr>,
           \<lparr>get_text = ''A b b.'', get_perplexity = exp (- ln (1 / 2)), get_type = 2\<rparr>], ()) \<and>
   sorted (map dto_key
     [\<lparr>get_text = ''A b b.'', get_perplexity = exp (- ln (1 / 2)), get_type = 0\<rparr>,
      \<lparr>get_text = ''A b b.'', get_perplexity = exp (- ln (1 / 2)), get_type = 2\<rparr>])"
proof -
  have g: "qc_generators halving_checker
      = [(2, constant_generator ''A b b.''), (0, constant_generator ''A b b.'')]"
    by (simp add: halving_checker_def)
  have r: "QualityChecker_run halving_checker () 1 ''a'' =
     Inr ([\<lparr>get_text = ''A b b.'', get_perplexity = exp (- ln (1 / 2)), get_type = 0\<rparr>,
           \<lparr>get_text = ''A b b.'', get_perplexity = exp (- ln (1 / 2)), get_type = 2\<rparr>], ())"
    by (simp add: QualityChecker_run_def g constant_generator_def halving_perplexity
        py_sorted_def dto_key_def)
  from quality_checker_sorted [OF r] r show ?thesis by simp
qed

section \<open>Taking and assessing an exam\<close>

lemma py_slices_in_range:
  "0 \<le> pos \<Longrightarrow> pos \<le> int (length q) \<Longrightarrow>
     py_slice_to q pos = take (nat pos) q \<and> py_slice_from q pos = drop (nat pos) q"
  by (simp add: py_slice_to_def py_slice_from_def py_bound_def min_def)

text \<open>One pass of the loop of \<^verbatim>\<open>take_exam\<close>.\<close>

lemma fill_answers_step:
  "gen st 1 (py_slice_to question position) = Inr (answer, st2) \<Longrightarrow> answer \<noteq> [] \<Longrightarrow>
     fill_answers gen ((question, position) # rest) answers st =
       fill_answers gen rest
         (AList.update question (fragment answer @ py_slice_from question position) answers) st2"
  by (simp add: fragment_def)

lemma fill_answers_Inr:
  assumes "fill_answers gen ((question, position) # rest) answers st = Inr r"
  obtains answer st2 where "gen st 1 (py_slice_to question position) = Inr (answer, st2)"
    and "answer \<noteq> []"
  using assms by (auto split: sum.splits if_splits)

text \<open>Every answer the loop records either was in the dict before or is the spliced
  answer of one of the tasks.\<close>

lemma fill_answers_recorded:
  "fill_answers gen tasks answers st = Inr (answers', st') \<Longrightarrow> map_of answers' q = Some a \<Longrightarrow>
     map_of answers q = Some a \<or>
     (\<exists>pos s s2 g. (q, pos) \<in> set tasks \<and> gen s 1 (py_slice_to q pos) = Inr (g, s2) \<and>
        g \<noteq> [] \<and> a = fragment g @ py_slice_from q pos)"
proof (induction tasks arbitrary: answers st)
  case Nil
  then show ?case by simp
next
  case (Cons task rest)
  obtain question position where task: "task = (question, position)" by (cases task)
  from Cons.prems(1) [unfolded task] obtain answer st2
    where g: "gen st 1 (py_slice_to question position) = Inr (answer, st2)" "answer \<noteq> []"
    by (rule fill_answers_Inr)
  let ?v = "fragment answer @ py_slice_from question position"
  from Cons.prems(1) task fill_answers_step [of gen st question position answer st2, OF g]
  have "fill_answers gen rest (AList.update question ?v answers) st2 = Inr (answers', st')"
    by simp
  from Cons.IH [OF this Cons.prems(2)]
  have "map_of (AList.update question ?v answers) q = Some a \<or>
     (\<exists>pos s s2 g. (q, pos) \<in> set rest \<and> gen s 1 (py_slice_to q pos) = Inr (g, s2) \<and>
        g \<noteq> [] \<and> a = fragment g @ py_slice_from q pos)" .
  then show ?case
  proof
    assume u: "map_of (AList.update question ?v answers) q = Some a"
    show ?thesis
    proof (cases "q = question")
      case True
      with u have "a = ?v" by (simp add: update_conv')
      with True g task show ?thesis by auto
    next
      case False
      with u show ?thesis by (simp add: update_conv')
    qed
  next
    assume "\<exists>pos s s2 g. (q, pos) \<in> set rest \<and> gen s 1 (py_slice_to q pos) = Inr (g, s2) \<and>
        g \<noteq> [] \<and> a = fragment g @ py_slice_from q pos"
    then show ?thesis by auto
  qed
qed

lemma fill_answers_keys:
  "fill_answers gen tasks answers st = Inr (answers', st') \<Longrightarrow>
     fst ` set answers' = fst ` set answers \<union> fst ` set tasks"
proof (induction tasks arbitrary: answers st)
  case Nil
  then show ?case by simp
next
  case (Cons task rest)
  obtain question position where task: "task = (question, position)" by (cases task)
  from Cons.prems(1) [unfolded task] obtain answer st2
    where g: "gen st 1 (py_slice_to question position) = Inr (answer, st2)" "answer \<noteq> []"
    by (rule fill_answers_Inr)
  let ?v = "fragment answer @ py_slice_from question position"
  from Cons.prems(1) task fill_answers_step [of gen st question position answer st2, OF g]
  have "fill_answers gen rest (AList.update question ?v answers) st2 = Inr (answers', st')"
    by simp
  from Cons.IH [OF this] task show ?case by (auto simp add: dom_update)
qed

lemma fill_answers_returns:
  "\<forall>s q pos. (q, pos) \<in> set tasks \<longrightarrow>
      (\<exists>g s2. gen s 1 (py_slice_to q pos) = Inr (g, s2) \<and> g \<noteq> []) \<Longrightarrow>
     \<exists>answers' st'. fill_answers gen tasks answers st = Inr (answers', st')"
proof (induction tasks arbitrary: answers st)
  case Nil
  then show ?case by simp
next
  case (Cons task rest)
  obtain question position where task: "task = (question, position)" by (cases task)
  with Cons.prems obtain answer st2
    where g: "gen st 1 (py_slice_to question position) = Inr (answer, st2)" "answer \<noteq> []"
    by (metis list.set_intros(1))
  from Cons.prems have "\<forall>s q pos. (q, pos) \<in> set rest \<longrightarrow>
      (\<exists>g s2. gen s 1 (py_slice_to q pos) = Inr (g, s2) \<and> g \<noteq> [])" by simp
  from Cons.IH [OF this] task fill_answers_step [of gen st question position answer st2, OF g] show ?case by simp
qed

text \<open>
  Claim C2 as stated fails for the marks \<open>!\<close> and \<open>?\<close>: \<^verbatim>\<open>take_exam\<close> tests the last
  character against the full stop only, so an answer \<open>''the!''\<close> is spliced unchanged.
\<close>

theorem take_exam_splices_counterexample:
  "take_exam exclaiming_generator () [(''a cat'', 2)] = Inr ([(''a cat'', ''the!cat'')], ()) \<and>
   exclaiming_generator () 1 (py_slice_to ''a cat'' 2) = Inr (''the!'', ()) \<and>
   last ''the!'' = CHR ''!'' \<and>
   py_slice_from ''a cat'' 2 = ''cat''"
  by (simp add: take_exam_def exclaiming_generator_def constant_generator_def py_slice_to_def
      py_slice_from_def py_bound_def)

text \<open>
  Claim C2, amended. In \<^verbatim>\<open>GeneratorRuleStudent.take_exam\<close>, for every task (question,
  position), the prompt is \<^verbatim>\<open>question[:position]\<close> and one token is requested; when the
  generated answer ends with a full stop, that mark is removed and replaced by a
  trailing space; the answer recorded for the question is this fragment followed by
  \<^verbatim>\<open>question[position:]\<close>. The exam returns whenever the task list is not empty and the
  generator answers every prompt with a non-empty text, and it records an answer for
  exactly the questions of the tasks.
\<close>

theorem take_exam_splices:
  "(tasks \<noteq> [] \<and>
      (\<forall>s q pos. (q, pos) \<in> set tasks \<longrightarrow>
         (\<exists>g s2. gen s 1 (py_slice_to q pos) = Inr (g, s2) \<and> g \<noteq> [])) \<longrightarrow>
      (\<exists>answers st'. take_exam gen st tasks = Inr (answers, st'))) \<and>
   (\<forall>answers st'. take_exam gen st tasks = Inr (answers, st') \<longrightarrow>
      fst ` set answers = fst ` set tasks \<and>
      (\<forall>q a. map_of answers q = Some a \<longrightarrow>
         (\<exists>pos s s2 g. (q, pos) \<in> set tasks \<and>
            gen s 1 (py_slice_to q pos) = Inr (g, s2) \<and> g \<noteq> [] \<and>
            a = (if last g = CHR ''.'' then butlast g @ '' '' else g) @ py_slice_from q pos)))"
proof (intro conjI allI impI)
  assume "tasks \<noteq> [] \<and>
      (\<forall>s q pos. (q, pos) \<in> set tasks \<longrightarrow>
         (\<exists>g s2. gen s 1 (py_slice_to q pos) = Inr (g, s2) \<and> g \<noteq> []))"
  then show "\<exists>answers st'. take_exam gen st tasks = Inr (answers, st')"
    using fill_answers_returns [of tasks gen "[]" st] by (simp add: take_exam_def)
next
  fix answers st'
  assume "take_exam gen st tasks = Inr (answers, st')"
  then have f: "fill_answers gen tasks [] st = Inr (answers, st')"
    by (simp add: take_exam_def split: if_splits)
  from fill_answers_keys [OF f] show "fst ` set answers = fst ` set tasks" by simp
  fix q a
  assume "map_of answers q = Some a"
  from fill_answers_recorded [OF f this]
  show "\<exists>pos s s2 g. (q, pos) \<in> set tasks \<and>
            gen s 1 (py_slice_to q pos) = Inr (g, s2) \<and> g \<noteq> [] \<and>
            a = (if last g = CHR ''.'' then butlast g @ '' '' else g) @ py_slice_from q pos"
    by (simp add: fragment_def)
qed

theorem take_exam_splices_witness:
  "take_exam stopping_student () [(''a cat'', 2)] = Inr ([(''a cat'', ''the cat'')], ()) \<and>
   (\<exists>pos s s2 g. (''a cat'', pos) \<in> set [(''a cat'', 2)] \<and>
      stopping_student s 1 (py_slice_to ''a cat'' pos) = Inr (g, s2) \<and> g \<noteq> [] \<and>
      ''the cat'' = (if last g = CHR ''.'' then butlast g @ '' '' else g) @ py_slice_from ''a cat'' pos)"
proof -
  have t: "take_exam stopping_student () [(''a cat'', 2)] = Inr ([(''a cat'', ''the cat'')], ())"
    by (simp add: take_exam_def stopping_student_def constant_generator_def py_slice_to_def
        py_slice_from_def py_bound_def)
  have m: "map_of [(''a cat'', ''the cat'')] ''a cat'' = Some ''the cat''" by simp
  from take_exam_splices [of "[(''a cat'', 2)]" stopping_student "()"] t m
  show ?thesis by blast
qed

lemma actual_answer_expected:
  "actual_answer qa question =
     (case expected_answer qa question of None \<Rightarrow> Inl StopIteration | Some ans \<Rightarrow> Inr ans)"
  by (induction qa question rule: actual_answer.induct) (simp_all add: expected_answer_def)

lemma count_true_answers_stored:
  "list_all (is_stored qa) answers \<Longrightarrow>
     count_true_answers qa answers t = Inr (t + real (length (filter (is_correct qa) answers)))"
proof (induction answers arbitrary: t)
  case Nil
  then show ?case by simp
next
  case (Cons qa_pair rest)
  obtain question answer where p: "qa_pair = (question, answer)" by (cases qa_pair)
  from Cons.prems p obtain expected where e: "expected_answer qa question = Some expected"
    by (auto simp add: is_stored_def)
  from Cons.prems have "list_all (is_stored qa) rest" by simp
  note ih = Cons.IH [OF this]
  from p e ih show ?case
    by (simp add: actual_answer_expected is_correct_def)
qed

text \<open>
  Claim C8 as stated fails: for an answer to a question that has no stored expected
  answer, \<^verbatim>\<open>next\<close> raises \<^verbatim>\<open>StopIteration\<close> and \<^verbatim>\<open>assess_exam\<close> returns no ratio.
\<close>

theorem assess_exam_ratio_counterexample:
  "assess_exam one_question [(''q2'', ''Cat'')] = Inl StopIteration \<and>
   [(''q2'', ''Cat'')] \<noteq> []"
  by (simp add: assess_exam_def one_question_def)

text \<open>
  Claim C8, amended. For every non-empty answer mapping whose questions all have a stored
  expected answer, \<^verbatim>\<open>Examiner.assess_exam\<close> returns the number of answers that equal the
  stored expected answer for their question under case-insensitive comparison, divided
  by the total number of answers, a ratio in \<open>[0, 1]\<close>; on an empty answer mapping it
  raises \<^verbatim>\<open>ValueError\<close>.
\<close>

theorem assess_exam_ratio:
  "assess_exam qa [] = Inl (ValueError ''Inappropriate input.'') \<and>
   (answers \<noteq> [] \<and> list_all (is_stored qa) answers \<longrightarrow>
      assess_exam qa answers
        = Inr (real (length (filter (is_correct qa) answers)) / real (length answers)) \<and>
      0 \<le> real (length (filter (is_correct qa) answers)) / real (length answers) \<and>
      real (length (filter (is_correct qa) answers)) / real (length answers) \<le> 1)"
proof (intro conjI impI)
  show "assess_exam qa [] = Inl (ValueError ''Inappropriate input.'')"
    by (simp add: assess_exam_def)
next
  assume a: "answers \<noteq> [] \<and> list_all (is_stored qa) answers"
  then show "assess_exam qa answers
        = Inr (real (length (filter (is_correct qa) answers)) / real (length answers))"
    by (simp add: assess_exam_def count_true_answers_stored)
  show "0 \<le> real (length (filter (is_correct qa) answers)) / real (length answers)"
    by simp
  have "length (filter (is_correct qa) answers) \<le> length answers" by (rule length_filter_le)
  moreover from a have "0 < length answers" by simp
  ultimately show "real (length (filter (is_correct qa) answers)) / real (length answers) \<le> 1"
    by simp
qed

theorem assess_exam_ratio_witness:
  "assess_exam one_question [(''q1'', ''Cat'')] = Inr 1"
proof -
  have h: "[(''q1'', ''Cat'')] \<noteq> [] \<and> list_all (is_stored one_question) [(''q1'', ''Cat'')]"
    by (simp add: is_stored_def expected_answer_def one_question_def)
  have c: "filter (is_correct one_question) [(''q1'', ''Cat'')] = [(''q1'', ''Cat'')]"
    by (simp add: is_correct_def expected_answer_def one_question_def lower_def lower_char_def)
  from assess_exam_ratio [of one_question "[(''q1'', ''Cat'')]"] h c show ?thesis by simp
qed

end
